theory Spec2Isabelle
  imports Main "HOL-Library.Sublist"
begin

section \<open>Python strings and the regular expressions of \<open>ingestion_sol.py\<close>\<close>

text \<open>
  A Python \<open>str\<close> is modelled as a \<open>string\<close> whose characters stand for the code
  points below 256.  \<open>is_space\<close> is what both \<open>\s\<close> and \<open>str.strip()\<close> take for
  whitespace in that range, \<open>is_word\<close> is \<open>\w\<close> (alphanumeric or underscore), and
  \<open>lower\<close> is the case folding that \<open>re.IGNORECASE\<close> applies to the ASCII letters
  of the patterns.
\<close>

definition is_space :: "char \<Rightarrow> bool" where
  "is_space c \<longleftrightarrow>
     c \<in> set [CHR 0x09, CHR 0x0A, CHR 0x0B, CHR 0x0C, CHR 0x0D,
              CHR 0x1C, CHR 0x1D, CHR 0x1E, CHR 0x1F, CHR 0x20, CHR 0x85, CHR 0xA0]"

definition is_word :: "char \<Rightarrow> bool" where
  "is_word c \<longleftrightarrow>
     (let n = (of_char c :: nat) in
        (48 \<le> n \<and> n \<le> 57) \<or> (65 \<le> n \<and> n \<le> 90) \<or> n = 95 \<or> (97 \<le> n \<and> n \<le> 122) \<or>
        n = 170 \<or> n = 178 \<or> n = 179 \<or> n = 181 \<or> n = 185 \<or> n = 186 \<or>
        (188 \<le> n \<and> n \<le> 190) \<or> (192 \<le> n \<and> n \<le> 214) \<or> (216 \<le> n \<and> n \<le> 246) \<or>
        248 \<le> n)"

definition lower :: "char \<Rightarrow> char" where
  "lower c =
     (case map_of (zip ''ABCDEFGHIJKLMNOPQRSTUVWXYZ'' ''abcdefghijklmnopqrstuvwxyz'') c of
        Some l \<Rightarrow> l
      | None \<Rightarrow> c)"

text \<open>\<open>str.strip()\<close>: whitespace is removed at both ends.\<close>

definition strip :: "string \<Rightarrow> string" where
  "strip s = rev (dropWhile is_space (rev (dropWhile is_space s)))"

text \<open>
  The patterns of the source use literals, the classes \<open>\s\<close>, \<open>\w\<close>, \<open>[^x]\<close> and
  \<open>.\<close> (under \<open>re.DOTALL\<close>), greedy \<open>*\<close> and \<open>+\<close> and lazy \<open>*?\<close> on one class,
  sequence, alternation, a greedy optional group and a capturing group.
\<close>

datatype atom = Lit char | Space | WordCh | NotLit char | AnyCh

datatype rx =
    Eps
  | Atom atom
  | Seq rx rx
  | Alt rx rx
  | Star atom
  | Plus atom
  | LazyStar atom
  | Opt rx
  | Grp rx

fun atom_ok :: "bool \<Rightarrow> atom \<Rightarrow> char \<Rightarrow> bool" where
  "atom_ok ci (Lit x) c = (if ci then lower c = lower x else c = x)"
| "atom_ok ci Space c = is_space c"
| "atom_ok ci WordCh c = is_word c"
| "atom_ok ci (NotLit x) c = (c \<noteq> x)"
| "atom_ok ci AnyCh c = True"

text \<open>
  The remainders that a greedy, respectively lazy, repetition of one class leaves, in
  the order in which the backtracking matcher of \<open>re\<close> tries them: longest run first
  for \<open>*\<close>, shortest first for \<open>*?\<close>.
\<close>

fun many :: "(char \<Rightarrow> bool) \<Rightarrow> string \<Rightarrow> string list" where
  "many p [] = [[]]"
| "many p (c # cs) = (if p c then many p cs @ [c # cs] else [c # cs])"

fun few :: "(char \<Rightarrow> bool) \<Rightarrow> string \<Rightarrow> string list" where
  "few p [] = [[]]"
| "few p (c # cs) = (c # cs) # (if p c then few p cs else [])"

text \<open>
  \<open>ms ci r s\<close> lists every way in which \<open>r\<close> matches at the start of \<open>s\<close>, as the
  captured groups and the text left over, in backtracking order; \<open>ci\<close> is
  \<open>re.IGNORECASE\<close>.
\<close>

fun ms :: "bool \<Rightarrow> rx \<Rightarrow> string \<Rightarrow> (string list \<times> string) list" where
  "ms ci Eps s = [([], s)]"
| "ms ci (Atom a) s =
     (case s of [] \<Rightarrow> [] | c # cs \<Rightarrow> if atom_ok ci a c then [([], cs)] else [])"
| "ms ci (Seq r1 r2) s =
     concat (map (\<lambda>(g1, s1). map (\<lambda>(g2, s2). (g1 @ g2, s2)) (ms ci r2 s1)) (ms ci r1 s))"
| "ms ci (Alt r1 r2) s = ms ci r1 s @ ms ci r2 s"
| "ms ci (Star a) s = map (Pair []) (many (atom_ok ci a) s)"
| "ms ci (Plus a) s =
     (case s of [] \<Rightarrow> []
      | c # cs \<Rightarrow> if atom_ok ci a c then map (Pair []) (many (atom_ok ci a) cs) else [])"
| "ms ci (LazyStar a) s = map (Pair []) (few (atom_ok ci a) s)"
| "ms ci (Opt r) s = ms ci r s @ [([], s)]"
| "ms ci (Grp r) s =
     map (\<lambda>(g, s'). (take (length s - length s') s # g, s')) (ms ci r s)"

text \<open>A literal word of a pattern, and the sequence of several parts.\<close>

fun lit :: "string \<Rightarrow> rx" where
  "lit [] = Eps"
| "lit [c] = Atom (Lit c)"
| "lit (c # cs) = Seq (Atom (Lit c)) (lit cs)"

fun seqs :: "rx list \<Rightarrow> rx" where
  "seqs [] = Eps"
| "seqs [r] = r"
| "seqs (r # rs) = Seq r (seqs rs)"

fun alts :: "rx list \<Rightarrow> rx" where
  "alts [] = Eps"
| "alts [r] = r"
| "alts (r # rs) = Alt r (alts rs)"

text \<open>
  \<open>re.search\<close>: the leftmost position with a match, and there the first match in
  backtracking order.  The result is the matched text, its groups and the text after
  the match.
\<close>

fun search :: "bool \<Rightarrow> rx \<Rightarrow> string \<Rightarrow> (string \<times> string list \<times> string) option" where
  "search ci r [] =
     (case ms ci r [] of [] \<Rightarrow> None | (g, rest) # _ \<Rightarrow> Some ([], g, rest))"
| "search ci r (c # cs) =
     (case ms ci r (c # cs) of
        [] \<Rightarrow> search ci r cs
      | (g, rest) # _ \<Rightarrow> Some (take (length (c # cs) - length rest) (c # cs), g, rest))"

text \<open>
  \<open>re.findall\<close>: the successive non-overlapping matches from left to right; each
  contributes its group when the pattern has one and the matched text otherwise.
  After an empty match the scan moves on by one character (no pattern of the source
  matches the empty text).  The text after a match is a suffix of the text searched, so
  the length tests, which make the recursion well-founded, always succeed.
\<close>

definition pick :: "string \<Rightarrow> string list \<Rightarrow> string" where
  "pick m g = (case g of [] \<Rightarrow> m | x # _ \<Rightarrow> x)"

function findall :: "bool \<Rightarrow> rx \<Rightarrow> string \<Rightarrow> string list" where
  "findall ci r s =
     (case search ci r s of
        None \<Rightarrow> []
      | Some (m, g, rest) \<Rightarrow>
          pick m g #
            (if m \<noteq> [] then (if length rest < length s then findall ci r rest else [])
             else (case rest of [] \<Rightarrow> [] | _ # cs \<Rightarrow>
                     if length cs < length s then findall ci r cs else [])))"
  by pat_completeness auto
termination
  by (relation "measure (\<lambda>(ci, r, s). length s)") auto

declare findall.simps [simp del]

section \<open>\<open>SolidityParser\<close>\<close>

record metadata =
  m_contracts :: "string list"
  m_functions :: "string list"
  m_modifiers :: "string list"
  m_events :: "string list"
  m_imports :: "string list"
  m_pragma :: "string option"

text \<open>\<open>contract\s+(\w+).*?\{\<close>, compiled with \<open>re.DOTALL\<close>.\<close>

definition contract_pattern :: rx where
  "contract_pattern =
     seqs [lit ''contract'', Plus Space, Grp (Plus WordCh), LazyStar AnyCh, Atom (Lit CHR ''{'')]"

text \<open>
  \<open>function\s+(\w+)\s*\([^)]*\)\s*(?:public|private|internal|external)?\s*(?:view|pure|payable)?\s*(?:returns\s*\([^)]*\))?\s*\{\<close>
\<close>

definition function_pattern :: rx where
  "function_pattern =
     seqs [lit ''function'', Plus Space, Grp (Plus WordCh), Star Space,
           Atom (Lit CHR ''(''), Star (NotLit CHR '')''), Atom (Lit CHR '')''), Star Space,
           Opt (alts [lit ''public'', lit ''private'', lit ''internal'', lit ''external'']),
           Star Space,
           Opt (alts [lit ''view'', lit ''pure'', lit ''payable'']),
           Star Space,
           Opt (seqs [lit ''returns'', Star Space, Atom (Lit CHR ''(''),
                      Star (NotLit CHR '')''), Atom (Lit CHR '')'')]),
           Star Space, Atom (Lit CHR ''{'')]"

text \<open>\<open>modifier\s+(\w+)\s*\([^)]*\)\s*\{\<close>\<close>

definition modifier_pattern :: rx where
  "modifier_pattern =
     seqs [lit ''modifier'', Plus Space, Grp (Plus WordCh), Star Space,
           Atom (Lit CHR ''(''), Star (NotLit CHR '')''), Atom (Lit CHR '')''), Star Space,
           Atom (Lit CHR ''{'')]"

text \<open>\<open>event\s+(\w+)\s*\([^)]*\);\<close>\<close>

definition event_pattern :: rx where
  "event_pattern =
     seqs [lit ''event'', Plus Space, Grp (Plus WordCh), Star Space,
           Atom (Lit CHR ''(''), Star (NotLit CHR '')''), Atom (Lit CHR '')''),
           Atom (Lit CHR '';'')]"

text \<open>\<open>pragma\s+solidity\s+([^;]+);\<close>\<close>

definition pragma_pattern :: rx where
  "pragma_pattern =
     seqs [lit ''pragma'', Plus Space, lit ''solidity'', Plus Space,
           Grp (Plus (NotLit CHR '';'')), Atom (Lit CHR '';'')]"

text \<open>\<open>import\s+[^;]+;\<close>\<close>

definition import_pattern :: rx where
  "import_pattern =
     seqs [lit ''import'', Plus Space, Plus (NotLit CHR '';''), Atom (Lit CHR '';'')]"

definition extract_metadata :: "string \<Rightarrow> metadata" where
  "extract_metadata content =
     \<lparr> m_contracts = findall False contract_pattern content,
       m_functions = findall False function_pattern content,
       m_modifiers = findall False modifier_pattern content,
       m_events = findall False event_pattern content,
       m_imports = map strip (findall False import_pattern content),
       m_pragma =
         (case search False pragma_pattern content of
            None \<Rightarrow> None
          | Some (m, g, rest) \<Rightarrow> Some (strip (pick m g))) \<rparr>"

text \<open>
  The seven keyword families of \<open>identify_security_patterns\<close>, in the order of the
  dictionary literal:
  \<^verbatim>\<open>nonReentrant|ReentrancyGuard\<close>,
  \<^verbatim>\<open>onlyOwner|onlyAdmin|require\s*\(\s*msg\.sender\<close>,
  \<^verbatim>\<open>SafeMath|\.add\(|\.sub\(|\.mul\(|\.div\(\<close>,
  \<^verbatim>\<open>\.call\(|\.delegatecall\(|\.staticcall\(\<close>,
  \<^verbatim>\<open>block\.timestamp|now\s\<close>,
  \<^verbatim>\<open>block\.difficulty|blockhash\(\<close>,
  \<^verbatim>\<open>require\s*\([^)]*\+|require\s*\([^)]*\-\<close>.
\<close>

definition reentrancy_guard_rx :: rx where
  "reentrancy_guard_rx = alts [lit ''nonReentrant'', lit ''ReentrancyGuard'']"

definition access_control_rx :: rx where
  "access_control_rx =
     alts [lit ''onlyOwner'', lit ''onlyAdmin'',
           seqs [lit ''require'', Star Space, Atom (Lit CHR ''(''), Star Space,
                 lit ''msg.sender'']]"

definition safe_math_rx :: rx where
  "safe_math_rx =
     alts [lit ''SafeMath'', lit ''.add('', lit ''.sub('', lit ''.mul('', lit ''.div('']"

definition external_calls_rx :: rx where
  "external_calls_rx = alts [lit ''.call('', lit ''.delegatecall('', lit ''.staticcall('']"

definition time_dependency_rx :: rx where
  "time_dependency_rx = alts [lit ''block.timestamp'', seqs [lit ''now'', Atom Space]]"

definition randomness_rx :: rx where
  "randomness_rx = alts [lit ''block.difficulty'', lit ''blockhash('']"

definition overflow_checks_rx :: rx where
  "overflow_checks_rx =
     alts [seqs [lit ''require'', Star Space, Atom (Lit CHR ''(''),
                 Star (NotLit CHR '')''), Atom (Lit CHR ''+'')],
           seqs [lit ''require'', Star Space, Atom (Lit CHR ''(''),
                 Star (NotLit CHR '')''), Atom (Lit CHR ''-'')]]"

definition patterns :: "(string \<times> rx) list" where
  "patterns =
     [(''reentrancy_guard'', reentrancy_guard_rx),
      (''access_control'', access_control_rx),
      (''safe_math'', safe_math_rx),
      (''external_calls'', external_calls_rx),
      (''time_dependency'', time_dependency_rx),
      (''randomness'', randomness_rx),
      (''overflow_checks'', overflow_checks_rx)]"

definition identify_security_patterns :: "string \<Rightarrow> string list" where
  "identify_security_patterns content =
     map fst (filter (\<lambda>(pattern_name, pattern). search True pattern content \<noteq> None) patterns)"

section \<open>The collaborators and the ingestion service\<close>

text \<open>
  Exceptions are values: an operation that can raise returns \<open>string + 'a\<close>, with
  \<open>Inl\<close> carrying \<open>str(e)\<close> of the exception raised.  A result dictionary with
  \<open>"success": False\<close> is a returned value, not an exception, and has constructors of
  its own.
\<close>

record doc_metadata =
  file_path :: string
  file_hash :: string
  chunk_index :: nat
  total_chunks :: nat
  md_contracts :: "string list"
  md_functions :: "string list"
  md_security_patterns :: "string list"
  md_pragma :: "string option"
  content_type :: string

record document =
  page_content :: string
  doc_meta :: doc_metadata

datatype message = SystemMessage string | HumanMessage string | AIMessage string

text \<open>Every request made to a collaborator is recorded, in order.\<close>

datatype call =
    InitStore
  | SimilaritySearch string nat "string option"
  | AddTexts "string list"
  | Invoke "message list"

text \<open>
  The collaborators are outside the repository.  What they answer is a parameter of
  the model: whether creating the store, searching it or adding to it raises, what
  the completion model returns or raises for a request, the digest function, the text
  splitter, the configured \<open>top_k_results\<close> and the clock.
\<close>

record collaborators =
  init_error :: "string option"
  search_error :: "string option"
  add_error :: "string option"
  ainvoke :: "message list \<Rightarrow> string + string"
  md5_hexdigest :: "string \<Rightarrow> string"
  split_text :: "string \<Rightarrow> string + string list"
  top_k_results :: nat
  now_isoformat :: string

text \<open>
  The mutable state: whether \<open>self.vector_store\<close> is set, the chunks held by the
  index, the conversation history of the bot, and the record of collaborator calls.
\<close>

record state =
  vector_store_set :: bool
  index :: "document list"
  conversation_history :: "message list"
  calls :: "call list"

definition initialize_vector_store :: "collaborators \<Rightarrow> state \<Rightarrow> (string + unit) \<times> state" where
  "initialize_vector_store env st =
     (let st1 = st\<lparr>calls := calls st @ [InitStore]\<rparr> in
      case init_error env of
        Some e \<Rightarrow> (Inl (''Failed to initialize vector store: '' @ e), st1)
      | None \<Rightarrow> (Inr (), st1\<lparr>vector_store_set := True\<rparr>))"

text \<open>
  Modelled from the spec: the vector-store collaborator (\<open>similarity_search(query, k,
  filter)\<close> and \<open>upsert(texts, metadatas)\<close> of the external interface).  A search
  returns at most \<open>k\<close> stored chunks, all of which satisfy the metadata filter; the
  similarity ranking itself is not modelled, the chunks come in index order.
\<close>

definition similarity_search ::
  "collaborators \<Rightarrow> state \<Rightarrow> string \<Rightarrow> nat \<Rightarrow> string option \<Rightarrow> (string + document list) \<times> state"
where
  "similarity_search env st query k flt =
     (let st1 = st\<lparr>calls := calls st @ [SimilaritySearch query k flt]\<rparr> in
      case search_error env of
        Some e \<Rightarrow> (Inl e, st1)
      | None \<Rightarrow>
          (Inr (take k (filter (\<lambda>d. case flt of None \<Rightarrow> True
                                       | Some h \<Rightarrow> file_hash (doc_meta d) = h) (index st))),
           st1))"

definition add_texts ::
  "collaborators \<Rightarrow> state \<Rightarrow> string list \<Rightarrow> doc_metadata list \<Rightarrow> (string + unit) \<times> state"
where
  "add_texts env st texts metadatas =
     (let st1 = st\<lparr>calls := calls st @ [AddTexts texts]\<rparr> in
      case add_error env of
        Some e \<Rightarrow> (Inl e, st1)
      | None \<Rightarrow>
          (Inr (),
           st1\<lparr>index := index st1 @
                  map (\<lambda>(t, m). \<lparr>page_content = t, doc_meta = m\<rparr>) (zip texts metadatas)\<rparr>))"

definition generate_file_hash :: "collaborators \<Rightarrow> string \<Rightarrow> string" where
  "generate_file_hash env content = md5_hexdigest env content"

record processed =
  p_file_path :: string
  p_file_hash :: string
  p_chunks_count :: nat
  p_metadata :: metadata
  p_security_patterns :: "string list"
  p_documents :: "document list"

text \<open>
  The results of \<open>ingest_contract\<close>: the three dictionaries it builds and the failure
  dictionary of \<open>process_contract_file\<close> that it passes on.
\<close>

datatype ingest_result =
    Skipped string
  | Ingested string string nat metadata "string list"
  | ProcessFailed string string
  | IngestFailed string

fun success :: "ingest_result \<Rightarrow> bool" where
  "success (Skipped h) = True"
| "success (Ingested p h n m sp) = True"
| "success (ProcessFailed p e) = False"
| "success (IngestFailed e) = False"

fun action :: "ingest_result \<Rightarrow> string option" where
  "action (Skipped h) = Some ''skipped''"
| "action (Ingested p h n m sp) = Some ''ingested''"
| "action (ProcessFailed p e) = None"
| "action (IngestFailed e) = None"

fun result_file_hash :: "ingest_result \<Rightarrow> string option" where
  "result_file_hash (Skipped h) = Some h"
| "result_file_hash (Ingested p h n m sp) = Some h"
| "result_file_hash (ProcessFailed p e) = None"
| "result_file_hash (IngestFailed e) = None"

fun chunks_added :: "ingest_result \<Rightarrow> nat option" where
  "chunks_added (Ingested p h n m sp) = Some n"
| "chunks_added _ = None"

fun error :: "ingest_result \<Rightarrow> string option" where
  "error (ProcessFailed p e) = Some e"
| "error (IngestFailed e) = Some e"
| "error _ = None"

definition process_contract_file ::
  "collaborators \<Rightarrow> string \<Rightarrow> string \<Rightarrow> (string \<times> string) + processed"
where
  "process_contract_file env path content =
     (let metadata = extract_metadata content;
          security_patterns = identify_security_patterns content;
          fhash = generate_file_hash env content
      in case split_text env content of
           Inl e \<Rightarrow> Inl (path, e)
         | Inr chunks \<Rightarrow>
             Inr \<lparr> p_file_path = path,
                   p_file_hash = fhash,
                   p_chunks_count = length chunks,
                   p_metadata = metadata,
                   p_security_patterns = security_patterns,
                   p_documents =
                     map (\<lambda>(i, chunk).
                            \<lparr> page_content = chunk,
                              doc_meta =
                                \<lparr> file_path = path,
                                  file_hash = fhash,
                                  chunk_index = i,
                                  total_chunks = length chunks,
                                  md_contracts = m_contracts metadata,
                                  md_functions = take 10 (m_functions metadata),
                                  md_security_patterns = security_patterns,
                                  md_pragma = m_pragma metadata,
                                  content_type = ''solidity_contract'' \<rparr> \<rparr>)
                         (enumerate 0 chunks) \<rparr>)"

definition ingest_contract ::
  "collaborators \<Rightarrow> state \<Rightarrow> string \<Rightarrow> string \<Rightarrow> (string + ingest_result) \<times> state"
where
  "ingest_contract env st path content =
     (case (if vector_store_set st then (Inr (), st) else initialize_vector_store env st) of
        (Inl e, st1) \<Rightarrow> (Inl e, st1)
      | (Inr u, st1) \<Rightarrow>
          (case process_contract_file env path content of
             Inl (p, e) \<Rightarrow> (Inr (ProcessFailed p e), st1)
           | Inr result \<Rightarrow>
               (case similarity_search env st1 (''file_hash:'' @ p_file_hash result) 1
                       (Some (p_file_hash result)) of
                  (Inl e, st2) \<Rightarrow> (Inr (IngestFailed (''Failed to ingest contract: '' @ e)), st2)
                | (Inr existing_docs, st2) \<Rightarrow>
                    if existing_docs \<noteq> [] then (Inr (Skipped (p_file_hash result)), st2)
                    else
                      (let texts = map page_content (p_documents result);
                           metadatas = map doc_meta (p_documents result)
                       in case add_texts env st2 texts metadatas of
                            (Inl e, st3) \<Rightarrow>
                              (Inr (IngestFailed (''Failed to ingest contract: '' @ e)), st3)
                          | (Inr u', st3) \<Rightarrow>
                              (Inr (Ingested path (p_file_hash result) (length texts)
                                      (p_metadata result) (p_security_patterns result)),
                               st3)))))"

record search_hit =
  hit_content :: string
  hit_metadata :: doc_metadata
  relevance_score :: "nat option"

text \<open>
  \<open>k = k or self.settings.top_k_results\<close>: an absent or zero \<open>k\<close> is replaced.  The
  documents of the store carry no \<open>score\<close> attribute, so \<open>relevance_score\<close> is
  \<open>None\<close>.
\<close>

definition search_contracts ::
  "collaborators \<Rightarrow> state \<Rightarrow> string \<Rightarrow> nat option \<Rightarrow> (string + search_hit list) \<times> state"
where
  "search_contracts env st query k =
     (case (if vector_store_set st then (Inr (), st) else initialize_vector_store env st) of
        (Inl e, st1) \<Rightarrow> (Inl e, st1)
      | (Inr u, st1) \<Rightarrow>
          (let k' = (case k of None \<Rightarrow> top_k_results env
                     | Some n \<Rightarrow> if n = 0 then top_k_results env else n)
           in case similarity_search env st1 query k' None of
                (Inl e, st2) \<Rightarrow> (Inl (''Search failed: '' @ e), st2)
              | (Inr docs, st2) \<Rightarrow>
                  (Inr (map (\<lambda>d. \<lparr> hit_content = page_content d,
                                      hit_metadata = doc_meta d,
                                      relevance_score = None \<rparr>) docs),
                   st2)))"

section \<open>\<open>SmartContractAuditBot\<close>\<close>

text \<open>\<open>sep.join(xs)\<close> and \<open>str(n)\<close> for a natural number.\<close>

fun join :: "string \<Rightarrow> string list \<Rightarrow> string" where
  "join sep [] = []"
| "join sep [x] = x"
| "join sep (x # xs) = x @ sep @ join sep xs"

fun str_nat :: "nat \<Rightarrow> string" where
  "str_nat n =
     (if n < 10 then [char_of (48 + n)]
      else str_nat (n div 10) @ [char_of (48 + n mod 10)])"

definition system_prompt :: string where
  "system_prompt = join ''\<newline>''
     [''You are an expert Smart Contract Security Auditor with deep knowledge of Solidity, blockchain security, and common vulnerabilities. Your role is to help users analyze smart contracts for security issues, best practices, and potential improvements.'',
      [],
      ''CORE CAPABILITIES:'',
      ''1. Security Vulnerability Detection (Reentrancy, Integer Overflow/Underflow, Access Control, etc.)'',
      ''2. Gas Optimization Analysis'',
      ''3. Code Quality Assessment'',
      ''4. Best Practices Recommendations'',
      ''5. Compliance Checking (ERC standards, etc.)'',
      [],
      ''AUDIT METHODOLOGY:'',
      ''- Always provide specific line references when discussing code'',
      ''- Categorize findings by severity: CRITICAL, HIGH, MEDIUM, LOW, INFORMATIONAL'',
      ''- Explain the potential impact and exploitation scenarios'',
      ''- Suggest specific remediation steps'',
      ''- Consider both automated and manual testing approaches'',
      [],
      ''RESPONSE FORMAT:'',
      ''- Start with a brief summary of findings'',
      ''- Provide detailed analysis with code references'',
      ''- Include severity ratings and risk assessments'',
      ''- Offer concrete remediation suggestions'',
      ''- Mention relevant tools and testing strategies'',
      [],
      ''SECURITY FOCUS AREAS:'',
      ''- Reentrancy attacks and state changes'',
      ''- Access control and authorization'',
      ''- Integer arithmetic and overflow protection'',
      ''- External call safety'',
      ''- Randomness and timestamp dependencies'',
      ''- Front-running and MEV considerations'',
      ''- Gas limit and DoS vulnerabilities'',
      ''- Upgrade patterns and proxy security'',
      [],
      ''Always be thorough, precise, and educational in your responses. When analyzing provided contract code, reference specific functions, variables, and patterns you observe.'']"

definition no_context :: string where
  "no_context = ''No relevant contract context found in the database.''"

text \<open>\<open>s.replace("{", "{{").replace("}", "}}")\<close>\<close>

definition escape_braces :: "string \<Rightarrow> string" where
  "escape_braces s =
     concat (map (\<lambda>c. if c = CHR ''}'' then ''}}'' else [c])
               (concat (map (\<lambda>c. if c = CHR ''{'' then ''{{'' else [c]) s)))"

text \<open>
  The prompt that \<open>_create_audit_prompt\<close> builds: the system template, in which the
  system prompt and the escaped context are interpolated, and the human template
  with its variable \<open>query\<close>.  The escaped user query is computed and not used.
\<close>

record chat_prompt_template =
  system_template :: string
  human_template :: string

definition create_audit_prompt :: "string \<Rightarrow> string \<Rightarrow> chat_prompt_template" where
  "create_audit_prompt user_query context =
     (let safe_user_query = escape_braces user_query;
          safe_context = escape_braces context
      in \<lparr> system_template =
             system_prompt @ ''\<newline>\<newline>RELEVANT CONTRACT CONTEXT:\<newline>'' @ safe_context @
             ''\<newline>\<newline>Based on the above context and your expertise, provide a comprehensive audit response to the user's query.'',
           human_template =
             ''User Query: {query}\<newline>\<newline>Please analyze the provided smart contract context and address the user's specific question or concern.\<newline>Focus on security implications, best practices, and actionable recommendations.'' \<rparr>)"

text \<open>
  The template engine of the prompt library is outside the repository.  It is
  modelled after the format-string syntax that its f-string templates use: \<open>{{\<close>
  and \<open>}}\<close> stand for one brace, \<open>{name}\<close> is replaced by the value given for
  \<open>name\<close>; a lone \<open>}\<close>, an unclosed \<open>{\<close> and a name without a value raise.  The
  second argument is the field name read so far (reversed) while inside \<open>{...}\<close>.
\<close>

fun format_template ::
  "(string \<Rightarrow> string option) \<Rightarrow> string option \<Rightarrow> string \<Rightarrow> string + string"
where
  "format_template kw None [] = Inr []"
| "format_template kw None (c # cs) =
     (if c = CHR ''{'' then
        (case cs of
           [] \<Rightarrow> Inl ''Single '{' encountered in format string''
         | d # ds \<Rightarrow>
             if d = CHR ''{'' then map_sum id (Cons CHR ''{'') (format_template kw None ds)
             else format_template kw (Some []) cs)
      else if c = CHR ''}'' then
        (case cs of
           [] \<Rightarrow> Inl ''Single '}' encountered in format string''
         | d # ds \<Rightarrow>
             if d = CHR ''}'' then map_sum id (Cons CHR ''}'') (format_template kw None ds)
             else Inl ''Single '}' encountered in format string'')
      else map_sum id (Cons c) (format_template kw None cs))"
| "format_template kw (Some acc) [] = Inl ''expected '}' before end of string''"
| "format_template kw (Some acc) (c # cs) =
     (if c = CHR ''}'' then
        (case kw (rev acc) of
           None \<Rightarrow> Inl (CHR 0x27 # rev acc @ [CHR 0x27])
         | Some v \<Rightarrow> map_sum id (append v) (format_template kw None cs))
      else format_template kw (Some (c # acc)) cs)"

text \<open>\<open>prompt.format_messages(query=...)\<close>\<close>

definition format_messages :: "chat_prompt_template \<Rightarrow> string \<Rightarrow> string + message list" where
  "format_messages prompt query =
     (let kw = (\<lambda>name. if name = ''query'' then Some query else None) in
      case format_template kw None (system_template prompt) of
        Inl e \<Rightarrow> Inl e
      | Inr sys \<Rightarrow>
          (case format_template kw None (human_template prompt) of
             Inl e \<Rightarrow> Inl e
           | Inr hum \<Rightarrow> Inr [SystemMessage sys, HumanMessage hum]))"

definition context_part :: "nat \<Rightarrow> search_hit \<Rightarrow> string" where
  "context_part i result =
     ''\<newline>--- Contract Context '' @ str_nat i @ '' ---\<newline>File: '' @
     file_path (hit_metadata result) @
     ''\<newline>Contracts: '' @ join '', '' (md_contracts (hit_metadata result)) @
     ''\<newline>Functions: '' @ join '', '' (take 5 (md_functions (hit_metadata result))) @
     ''\<newline>Security Patterns: '' @ join '', '' (md_security_patterns (hit_metadata result)) @
     ''\<newline>\<newline>Code:\<newline>'' @ hit_content result @ ''\<newline>''"

definition get_relevant_context :: "collaborators \<Rightarrow> state \<Rightarrow> string \<Rightarrow> string \<times> state" where
  "get_relevant_context env st query =
     (case search_contracts env st query (Some (top_k_results env)) of
        (Inl e, st1) \<Rightarrow> (''Error retrieving context: '' @ e, st1)
      | (Inr search_results, st1) \<Rightarrow>
          if search_results = [] then (no_context, st1)
          else (join ''\<newline>'' (map (\<lambda>(i, result). context_part i result)
                                    (enumerate 1 search_results)),
                st1))"

text \<open>The dictionaries that \<open>chat\<close> returns.\<close>

datatype chat_result =
    ChatOk string bool string
  | ChatFailed string

text \<open>\<open>xs[-10:]\<close>\<close>

definition last10 :: "'a list \<Rightarrow> 'a list" where
  "last10 xs = drop (length xs - 10) xs"

definition chat :: "collaborators \<Rightarrow> state \<Rightarrow> string \<Rightarrow> bool \<Rightarrow> chat_result \<times> state" where
  "chat env st user_message include_context =
     (let (context, st1) =
            (if include_context then get_relevant_context env st user_message else ([], st));
          context_used = (context \<noteq> [] \<and> context \<noteq> no_context)
      in case (if context_used
               then format_messages (create_audit_prompt user_message context) user_message
               else Inr [SystemMessage system_prompt, HumanMessage user_message]) of
           Inl e \<Rightarrow> (ChatFailed (''Chat failed: '' @ e), st1)
         | Inr messages_to_send \<Rightarrow>
             (let full_messages = last10 (conversation_history st1) @ messages_to_send;
                  st2 = st1\<lparr>calls := calls st1 @ [Invoke full_messages]\<rparr>
              in case ainvoke env full_messages of
                   Inl e \<Rightarrow> (ChatFailed (''Chat failed: '' @ e), st2)
                 | Inr response \<Rightarrow>
                     (ChatOk response context_used (now_isoformat env),
                      st2\<lparr>conversation_history :=
                            conversation_history st2 @
                              [HumanMessage user_message, AIMessage response]\<rparr>)))"



text \<open>The keys \<open>context_used\<close> and \<open>error\<close> of the dictionary that \<open>chat\<close> returns.\<close>

fun context_used :: "chat_result \<Rightarrow> bool option" where
  "context_used (ChatOk response used ts) = Some used"
| "context_used (ChatFailed e) = None"

fun chat_error :: "chat_result \<Rightarrow> string option" where
  "chat_error (ChatOk response used ts) = None"
| "chat_error (ChatFailed e) = Some e"

text \<open>The requests that have been sent to the completion model.\<close>

fun sent_requests :: "call list \<Rightarrow> message list list" where
  "sent_requests [] = []"
| "sent_requests (Invoke req # cs) = req # sent_requests cs"
| "sent_requests (c # cs) = sent_requests cs"

section \<open>Reference notions for the statements\<close>

text \<open>
  The texts that a pattern denotes, independently of the order in which the matcher
  tries them.
\<close>

fun lang :: "bool \<Rightarrow> rx \<Rightarrow> string set" where
  "lang ci Eps = {[]}"
| "lang ci (Atom a) = {[c] | c. atom_ok ci a c}"
| "lang ci (Seq r1 r2) = {u @ v | u v. u \<in> lang ci r1 \<and> v \<in> lang ci r2}"
| "lang ci (Alt r1 r2) = lang ci r1 \<union> lang ci r2"
| "lang ci (Star a) = {w. \<forall>c\<in>set w. atom_ok ci a c}"
| "lang ci (Plus a) = {w. w \<noteq> [] \<and> (\<forall>c\<in>set w. atom_ok ci a c)}"
| "lang ci (LazyStar a) = {w. \<forall>c\<in>set w. atom_ok ci a c}"
| "lang ci (Opt r) = insert [] (lang ci r)"
| "lang ci (Grp r) = lang ci r"

text \<open>\<open>occurs ci r s\<close>: some part of \<open>s\<close> is a text of the pattern.\<close>

definition occurs :: "bool \<Rightarrow> rx \<Rightarrow> string \<Rightarrow> bool" where
  "occurs ci r s \<longleftrightarrow> (\<exists>pre m post. s = pre @ m @ post \<and> m \<in> lang ci r)"

text \<open>
  \<open>no_match_before ci r pre s\<close>: in the text \<open>pre @ s\<close> the pattern matches at no
  position of \<open>pre\<close>, so that a match at the start of \<open>s\<close> is the first one.
\<close>

fun no_match_before :: "bool \<Rightarrow> rx \<Rightarrow> string \<Rightarrow> string \<Rightarrow> bool" where
  "no_match_before ci r [] s = True"
| "no_match_before ci r (c # pre) s =
     (ms ci r (c # pre @ s) = [] \<and> no_match_before ci r pre s)"

text \<open>
  The specification's wording of the access-control family, which names two of the
  three alternatives of the source: \<open>onlyOwner\<close> and \<open>require(msg.sender\<close>, the
  latter with optional whitespace around the parenthesis.
\<close>

definition spec_access_control_rx :: rx where
  "spec_access_control_rx =
     alts [lit ''onlyOwner'',
           seqs [lit ''require'', Star Space, Atom (Lit CHR ''(''), Star Space,
                 lit ''msg.sender'']]"

text \<open>
  The specification's wording of a pragma line: some line of the text contains
  \<open>pragma solidity \<close> and, later on that same line, a semicolon.
\<close>

fun lines_of :: "string \<Rightarrow> string list" where
  "lines_of [] = [[]]"
| "lines_of (c # cs) =
     (if c = CHR 0x0A then [] # lines_of cs
      else (case lines_of cs of [] \<Rightarrow> [[c]] | l # ls \<Rightarrow> (c # l) # ls))"

definition spec_pragma_line :: "string \<Rightarrow> bool" where
  "spec_pragma_line l \<longleftrightarrow>
     (\<exists>u\<in>set (suffixes l). prefix ''pragma solidity '' u \<and> CHR '';'' \<in> set (drop 16 u))"

definition spec_has_pragma_line :: "string \<Rightarrow> bool" where
  "spec_has_pragma_line content \<longleftrightarrow> (\<exists>l\<in>set (lines_of content). spec_pragma_line l)"

text \<open>The messages that the audit prompt is to produce for a context and a query.\<close>

definition audit_system_text :: "string \<Rightarrow> string" where
  "audit_system_text context =
     system_prompt @ ''\<newline>\<newline>RELEVANT CONTRACT CONTEXT:\<newline>'' @ context @
     ''\<newline>\<newline>Based on the above context and your expertise, provide a comprehensive audit response to the user's query.''"

definition audit_human_text :: "string \<Rightarrow> string" where
  "audit_human_text query =
     ''User Query: '' @ query @
     ''\<newline>\<newline>Please analyze the provided smart contract context and address the user's specific question or concern.\<newline>Focus on security implications, best practices, and actionable recommendations.''"

text \<open>
  Concrete collaborators and states for the examples: a splitter that returns the
  text as its only chunk and no chunk for the empty text, a completion model that
  always answers and one that always raises, the identity in place of the digest, a
  store that answers and one whose search raises, a state with an empty index and
  one with twelve messages of history.
\<close>

definition one_chunk_splitter :: "string \<Rightarrow> string + string list" where
  "one_chunk_splitter s = Inr (if s = [] then [] else [s])"

definition echo_model :: "message list \<Rightarrow> string + string" where
  "echo_model req = Inr ''ok''"

definition failing_model :: "message list \<Rightarrow> string + string" where
  "failing_model req = Inl ''timeout''"

definition plain_digest :: "string \<Rightarrow> string" where
  "plain_digest s = s"

definition good_env :: collaborators where
  "good_env =
     \<lparr> init_error = None, search_error = None, add_error = None,
       ainvoke = echo_model, md5_hexdigest = plain_digest,
       split_text = one_chunk_splitter, top_k_results = 5,
       now_isoformat = ''2024-01-01T00:00:00'' \<rparr>"

definition store_down_env :: collaborators where
  "store_down_env = good_env\<lparr>search_error := Some ''down''\<rparr>"

definition model_down_env :: collaborators where
  "model_down_env = good_env\<lparr>ainvoke := failing_model\<rparr>"

definition empty_state :: state where
  "empty_state =
     \<lparr> vector_store_set = True, index = [], conversation_history = [], calls = [] \<rparr>"

definition talked_state :: state where
  "talked_state =
     empty_state\<lparr>conversation_history :=
       [HumanMessage ''q1'', AIMessage ''a1'', HumanMessage ''q2'', AIMessage ''a2'',
        HumanMessage ''q3'', AIMessage ''a3'', HumanMessage ''q4'', AIMessage ''a4'',
        HumanMessage ''q5'', AIMessage ''a5'', HumanMessage ''q6'', AIMessage ''a6'']\<rparr>"


section \<open>The matcher and the texts of a pattern\<close>

lemma many_set: "set (many p s) = {s'. \<exists>m. s = m @ s' \<and> (\<forall>c\<in>set m. p c)}"
proof (induction s)
  case Nil
  show ?case by auto
next
  case (Cons c cs)
  show ?case
  proof (cases "p c")
    case True
    then show ?thesis using Cons
      by (auto simp: Cons_eq_append_conv) 
  next
    case False
    then show ?thesis by (auto simp: Cons_eq_append_conv)
  qed
qed

lemma few_set: "set (few p s) = {s'. \<exists>m. s = m @ s' \<and> (\<forall>c\<in>set m. p c)}"
proof (induction s)
  case Nil
  show ?case by auto
next
  case (Cons c cs)
  show ?case
  proof (cases "p c")
    case True
    then show ?thesis using Cons
      by (auto simp: Cons_eq_append_conv) 
  next
    case False
    then show ?thesis by (auto simp: Cons_eq_append_conv)
  qed
qed


lemma ms_Seq_rests:
  "s' \<in> snd ` set (ms ci (Seq r1 r2) s) \<longleftrightarrow>
     (\<exists>s1. s1 \<in> snd ` set (ms ci r1 s) \<and> s' \<in> snd ` set (ms ci r2 s1))"
proof
  assume "s' \<in> snd ` set (ms ci (Seq r1 r2) s)"
  then obtain g where "(g, s') \<in> set (ms ci (Seq r1 r2) s)"
    by (auto simp del: ms.simps)
  then have "\<exists>g1 s1 g2. (g1, s1) \<in> set (ms ci r1 s) \<and> (g2, s') \<in> set (ms ci r2 s1)"
    by auto
  then obtain g1 s1 g2 where "(g1, s1) \<in> set (ms ci r1 s)" "(g2, s') \<in> set (ms ci r2 s1)"
    by blast
  then have "s1 \<in> snd ` set (ms ci r1 s) \<and> s' \<in> snd ` set (ms ci r2 s1)"
    by (metis image_eqI snd_conv)
  then show "\<exists>s1. s1 \<in> snd ` set (ms ci r1 s) \<and> s' \<in> snd ` set (ms ci r2 s1)" ..
next
  assume "\<exists>s1. s1 \<in> snd ` set (ms ci r1 s) \<and> s' \<in> snd ` set (ms ci r2 s1)"
  then have "\<exists>s1 g1 g2. (g1, s1) \<in> set (ms ci r1 s) \<and> (g2, s') \<in> set (ms ci r2 s1)"
    by fastforce
  then obtain s1 g1 g2 where a: "(g1, s1) \<in> set (ms ci r1 s)" and b: "(g2, s') \<in> set (ms ci r2 s1)"
    by blast
  have "(g1 @ g2, s') \<in> set (ms ci (Seq r1 r2) s)"
    using a b by (simp, intro bexI[of _ "(g1, s1)"]) auto
  then show "s' \<in> snd ` set (ms ci (Seq r1 r2) s)" by (metis image_eqI snd_conv)
qed

lemma ms_Grp_rests: "snd ` set (ms ci (Grp r) s) = snd ` set (ms ci r s)"
proof -
  have "snd \<circ> (\<lambda>(g, s'). (take (length s - length s') s # g, s')) = snd"
    by (rule ext) (simp add: case_prod_beta)
  then show ?thesis by (simp add: image_image case_prod_beta)
qed

lemma ms_rests: "snd ` set (ms ci r s) = {s'. \<exists>m\<in>lang ci r. s = m @ s'}"
proof (induction r arbitrary: s)
  case Eps
  show ?case by simp
next
  case (Atom a)
  show ?case by (cases s) auto
next
  case (Seq r1 r2)
  show ?case
  proof (rule set_eqI)
    fix s'
    have "s' \<in> snd ` set (ms ci (Seq r1 r2) s) \<longleftrightarrow>
          (\<exists>s1. (\<exists>m1\<in>lang ci r1. s = m1 @ s1) \<and> (\<exists>m2\<in>lang ci r2. s1 = m2 @ s'))"
      unfolding ms_Seq_rests Seq.IH by simp
    also have "\<dots> \<longleftrightarrow> (\<exists>m1\<in>lang ci r1. \<exists>m2\<in>lang ci r2. s = (m1 @ m2) @ s')"
      by auto
    also have "\<dots> \<longleftrightarrow> (\<exists>m\<in>lang ci (Seq r1 r2). s = m @ s')"
      by (simp only: lang.simps) blast
    finally show "s' \<in> snd ` set (ms ci (Seq r1 r2) s) \<longleftrightarrow> s' \<in> {s'. \<exists>m\<in>lang ci (Seq r1 r2). s = m @ s'}"
      by simp
  qed
next
  case (Alt r1 r2)
  then show ?case by (auto simp: image_Un)
next
  case (Star a)
  show ?case by (auto simp: image_image many_set)
next
  case (Plus a)
  show ?case by (cases s) (auto simp: image_image many_set Cons_eq_append_conv)
next
  case (LazyStar a)
  show ?case by (auto simp: image_image few_set)
next
  case (Opt r)
  then show ?case by (auto simp: image_Un)
next
  case (Grp r)
  then show ?case by (simp only: ms_Grp_rests lang.simps)
qed

section \<open>Formatting the audit prompt\<close>

lemma format_template_plain:
  "\<forall>c\<in>set a. c \<noteq> CHR ''{'' \<and> c \<noteq> CHR ''}'' \<Longrightarrow>
   format_template kw None (a @ t) = map_sum id ((@) a) (format_template kw None t)"
proof (induction a)
  case Nil
  show ?case by (cases "format_template kw None t") simp_all
next
  case (Cons c a)
  then show ?case by (cases "format_template kw None t") simp_all
qed

lemma escape_braces_Cons:
  "escape_braces (c # cs) =
     (if c = CHR ''{'' then ''{{'' else if c = CHR ''}'' then ''}}'' else [c]) @ escape_braces cs"
  by (simp add: escape_braces_def)

lemma escape_braces_Nil: "escape_braces [] = []"
  by (simp add: escape_braces_def)

lemma format_template_escape:
  "format_template kw None (escape_braces s @ t) = map_sum id ((@) s) (format_template kw None t)"
proof (induction s)
  case Nil
  show ?case by (cases "format_template kw None t") (simp_all add: escape_braces_Nil)
next
  case (Cons c s)
  then show ?case by (cases "format_template kw None t") (simp_all add: escape_braces_Cons)
qed

lemma list_all_join:
  "list_all (list_all P) xs \<Longrightarrow> list_all P sep \<Longrightarrow> list_all P (join sep xs)"
  by (induction sep xs rule: join.induct) simp_all

lemma system_prompt_plain: "list_all (\<lambda>c. c \<noteq> CHR ''{'' \<and> c \<noteq> CHR ''}'') system_prompt"
  unfolding system_prompt_def by (rule list_all_join) simp_all

lemma system_prompt_no_braces:
  "\<forall>c\<in>set system_prompt. c \<noteq> CHR ''{'' \<and> c \<noteq> CHR ''}''"
  using system_prompt_plain by (simp only: list_all_iff)

lemma format_system_template:
  "format_template kw None (system_template (create_audit_prompt q ctx)) = Inr (audit_system_text ctx)"
proof -
  let ?mid = "''\<newline>\<newline>RELEVANT CONTRACT CONTEXT:\<newline>''"
  let ?tail = "''\<newline>\<newline>Based on the above context and your expertise, provide a comprehensive audit response to the user's query.''"
  have tail: "format_template kw None ?tail = Inr ?tail" by simp
  have mid: "format_template kw None (?mid @ escape_braces ctx @ ?tail) = Inr (?mid @ ctx @ ?tail)"
    using format_template_plain[of ?mid kw "escape_braces ctx @ ?tail"]
    by (simp only: format_template_escape tail) simp
  have "format_template kw None (system_prompt @ ?mid @ escape_braces ctx @ ?tail)
        = Inr (system_prompt @ ?mid @ ctx @ ?tail)"
    by (simp only: format_template_plain[OF system_prompt_no_braces] mid) simp
  then show ?thesis by (simp add: create_audit_prompt_def audit_system_text_def Let_def)
qed

lemma format_human_template:
  "format_template (\<lambda>name. if name = ''query'' then Some q else None) None
     (human_template (create_audit_prompt q' ctx)) = Inr (audit_human_text q)"
  by (simp add: create_audit_prompt_def audit_human_text_def Let_def)

lemma format_audit_prompt:
  "format_messages (create_audit_prompt q ctx) q =
     Inr [SystemMessage (audit_system_text ctx), HumanMessage (audit_human_text q)]"
  by (simp add: format_messages_def Let_def format_system_template format_human_template)

section \<open>One chat call\<close>

lemma sent_requests_append: "sent_requests (xs @ ys) = sent_requests xs @ sent_requests ys"
  by (induction xs rule: sent_requests.induct) simp_all

lemma search_contracts_keeps:
  assumes "search_contracts env st q k = (r, st1)"
  shows "conversation_history st1 = conversation_history st"
    and "index st1 = index st"
    and "sent_requests (calls st1) = sent_requests (calls st)"
  using assms
  by (auto simp: search_contracts_def initialize_vector_store_def similarity_search_def Let_def
        sent_requests_append split: if_splits sum.splits prod.splits option.splits)

lemma get_relevant_context_keeps:
  assumes "get_relevant_context env st q = (c, st1)"
  shows "conversation_history st1 = conversation_history st"
    and "index st1 = index st"
    and "sent_requests (calls st1) = sent_requests (calls st)"
  using assms search_contracts_keeps[of env st q "Some (top_k_results env)"]
  by (auto simp: get_relevant_context_def split: if_splits sum.splits prod.splits)

lemma chat_eq:
  "chat env st um ic =
     (let (context, st1) = (if ic then get_relevant_context env st um else ([], st));
          used = (context \<noteq> [] \<and> context \<noteq> no_context);
          msgs = (if used then [SystemMessage (audit_system_text context),
                                HumanMessage (audit_human_text um)]
                  else [SystemMessage system_prompt, HumanMessage um]);
          full = last10 (conversation_history st1) @ msgs;
          st2 = st1\<lparr>calls := calls st1 @ [Invoke full]\<rparr>
      in case ainvoke env full of
           Inl e \<Rightarrow> (ChatFailed (''Chat failed: '' @ e), st2)
         | Inr response \<Rightarrow>
             (ChatOk response used (now_isoformat env),
              st2\<lparr>conversation_history :=
                    conversation_history st2 @ [HumanMessage um, AIMessage response]\<rparr>))"
  by (simp add: chat_def format_audit_prompt Let_def split: prod.splits)

lemma context_keeps:
  assumes "(if ic then get_relevant_context env st um else ([], st)) = (c, st1)"
  shows "conversation_history st1 = conversation_history st"
    and "sent_requests (calls st1) = sent_requests (calls st)"
  using assms get_relevant_context_keeps[of env st um c st1]
  by (auto split: if_splits)

lemma chat_run:
  assumes "chat env st um ic = (res, st')"
    and c: "(if ic then get_relevant_context env st um else ([], st)) = (c, st1)"
    and full: "full = last10 (conversation_history st) @
                 (if c \<noteq> [] \<and> c \<noteq> no_context
                  then [SystemMessage (audit_system_text c), HumanMessage (audit_human_text um)]
                  else [SystemMessage system_prompt, HumanMessage um])"
  shows "sent_requests (calls st') = sent_requests (calls st) @ [full]"
    and "res = (case ainvoke env full of
                  Inl e \<Rightarrow> ChatFailed (''Chat failed: '' @ e)
                | Inr r \<Rightarrow> ChatOk r (c \<noteq> [] \<and> c \<noteq> no_context) (now_isoformat env))"
    and "conversation_history st' =
           (case ainvoke env full of
              Inl e \<Rightarrow> conversation_history st
            | Inr r \<Rightarrow> conversation_history st @ [HumanMessage um, AIMessage r])"
  using assms(1) context_keeps[OF c] unfolding chat_eq c full
  by (auto simp: Let_def sent_requests_append split: sum.splits)

lemma last10_length: "length (last10 xs) = min 10 (length xs)"
  by (simp add: last10_def)

lemma last10_suffix: "suffix (last10 xs) xs"
  by (simp add: last10_def suffix_drop)






text \<open>
  Claim C8.  When the index holds no chunk and the store answers, the one request
  sent to the completion model consists of the trailing history window, the base
  system prompt and the user message, with no context section.  Whenever the model
  answers that request, so that the call produces its completion, the result is the
  success dictionary with \<open>context_used = False\<close>; in no case is \<open>context_used\<close>
  true.
\<close>

theorem chat_empty_store_no_context:
  assumes "index st = []" and "search_error env = None"
    and "vector_store_set st \<or> init_error env = None"
    and "chat env st user_message include_context = (res, st')"
  shows "sent_requests (calls st') =
           sent_requests (calls st) @
             [last10 (conversation_history st) @
                [SystemMessage system_prompt, HumanMessage user_message]] \<and>
         context_used res \<noteq> Some True \<and>
         (\<forall>response.
            ainvoke env (last10 (conversation_history st) @
                           [SystemMessage system_prompt, HumanMessage user_message]) = Inr response \<longrightarrow>
            res = ChatOk response False (now_isoformat env) \<and>
            context_used res = Some False)"
proof -
  obtain c st1 where c: "(if include_context then get_relevant_context env st user_message
                          else ([], st)) = (c, st1)"
    by (cases "if include_context then get_relevant_context env st user_message else ([], st)")
  have "fst (get_relevant_context env st user_message) = no_context"
    using assms(1-3)
    by (auto simp: get_relevant_context_def search_contracts_def initialize_vector_store_def
          similarity_search_def Let_def split: option.splits)
  with c have "c = [] \<or> c = no_context" by (auto split: if_splits)
  then show ?thesis
    using chat_run(1,2)[OF assms(4) c refl] by (auto split: sum.splits)
qed

theorem chat_empty_store_no_context_witness:
  "sent_requests (calls (snd (chat good_env empty_state ''hi'' True))) =
     [[SystemMessage system_prompt, HumanMessage ''hi'']] \<and>
   fst (chat good_env empty_state ''hi'' True) = ChatOk ''ok'' False ''2024-01-01T00:00:00''"
proof -
  have h: "index empty_state = []" "search_error good_env = None"
    "vector_store_set empty_state \<or> init_error good_env = None"
    by (simp_all add: empty_state_def good_env_def)
  have r: "chat good_env empty_state ''hi'' True =
             (fst (chat good_env empty_state ''hi'' True), snd (chat good_env empty_state ''hi'' True))"
    by simp
  show ?thesis
    using chat_empty_store_no_context[OF h r]
    by (simp add: empty_state_def good_env_def echo_model_def last10_def)
qed

text \<open>
  Claim C9.  Every chat call sends one request, which begins with the trailing
  window of the history, at most 10 entries and the most recent ones, followed by
  the system and the human message of this turn; the history in memory keeps all its
  earlier entries.
\<close>

theorem chat_sends_trailing_window:
  assumes "chat env st user_message include_context = (res, st')"
  shows "(\<exists>sys hum. sent_requests (calls st') =
            sent_requests (calls st) @
              [last10 (conversation_history st) @ [SystemMessage sys, HumanMessage hum]]) \<and>
         length (last10 (conversation_history st)) = min 10 (length (conversation_history st)) \<and>
         suffix (last10 (conversation_history st)) (conversation_history st) \<and>
         prefix (conversation_history st) (conversation_history st')"
proof -
  obtain c st1 where c: "(if include_context then get_relevant_context env st user_message
                          else ([], st)) = (c, st1)"
    by (cases "if include_context then get_relevant_context env st user_message else ([], st)")
  have "\<exists>sys hum. sent_requests (calls st') =
            sent_requests (calls st) @
              [last10 (conversation_history st) @ [SystemMessage sys, HumanMessage hum]]"
    using chat_run(1)[OF assms c refl] by (cases "c \<noteq> [] \<and> c \<noteq> no_context") auto
  moreover have "prefix (conversation_history st) (conversation_history st')"
    using chat_run(3)[OF assms c refl] by (auto split: sum.splits)
  ultimately show ?thesis by (simp add: last10_length last10_suffix)
qed

theorem chat_sends_trailing_window_witness:
  "sent_requests (calls (snd (chat good_env talked_state ''hi'' False))) =
     [[HumanMessage ''q2'', AIMessage ''a2'', HumanMessage ''q3'', AIMessage ''a3'',
       HumanMessage ''q4'', AIMessage ''a4'', HumanMessage ''q5'', AIMessage ''a5'',
       HumanMessage ''q6'', AIMessage ''a6'',
       SystemMessage system_prompt, HumanMessage ''hi'']] \<and>
   prefix (conversation_history talked_state)
     (conversation_history (snd (chat good_env talked_state ''hi'' False)))"
proof -
  have r: "chat good_env talked_state ''hi'' False =
             (fst (chat good_env talked_state ''hi'' False), snd (chat good_env talked_state ''hi'' False))"
    by simp
  have "sent_requests (calls (snd (chat good_env talked_state ''hi'' False))) =
     [[HumanMessage ''q2'', AIMessage ''a2'', HumanMessage ''q3'', AIMessage ''a3'',
       HumanMessage ''q4'', AIMessage ''a4'', HumanMessage ''q5'', AIMessage ''a5'',
       HumanMessage ''q6'', AIMessage ''a6'',
       SystemMessage system_prompt, HumanMessage ''hi'']]"
    by (simp add: chat_eq good_env_def echo_model_def talked_state_def empty_state_def
          last10_def Let_def)
  then show ?thesis using chat_sends_trailing_window[OF r] by simp
qed

text \<open>
  Claim C10.  When the request that a chat call sends to the completion model
  raises, the call returns the failure dictionary and leaves the conversation history
  exactly as it was.
\<close>

theorem chat_failure_keeps_history:
  assumes "chat env st user_message include_context = (res, st')"
    and "sent_requests (calls st') = sent_requests (calls st) @ [req]"
    and "ainvoke env req = Inl e"
  shows "res = ChatFailed (''Chat failed: '' @ e) \<and>
         conversation_history st' = conversation_history st"
proof -
  obtain c st1 where c: "(if include_context then get_relevant_context env st user_message
                          else ([], st)) = (c, st1)"
    by (cases "if include_context then get_relevant_context env st user_message else ([], st)")
  from chat_run(1)[OF assms(1) c refl] assms(2)
  have req: "req = last10 (conversation_history st) @
                 (if c \<noteq> [] \<and> c \<noteq> no_context
                  then [SystemMessage (audit_system_text c), HumanMessage (audit_human_text user_message)]
                  else [SystemMessage system_prompt, HumanMessage user_message])"
    by simp
  show ?thesis
    using chat_run(2,3)[OF assms(1) c req] assms(3) by simp
qed

theorem chat_failure_keeps_history_witness:
  "fst (chat model_down_env talked_state ''hi'' False) = ChatFailed ''Chat failed: timeout'' \<and>
   conversation_history (snd (chat model_down_env talked_state ''hi'' False)) =
     conversation_history talked_state"
proof -
  let ?req = "last10 (conversation_history talked_state) @
                [SystemMessage system_prompt, HumanMessage ''hi'']"
  have r: "chat model_down_env talked_state ''hi'' False =
             (fst (chat model_down_env talked_state ''hi'' False),
              snd (chat model_down_env talked_state ''hi'' False))"
    by simp
  have s: "sent_requests (calls (snd (chat model_down_env talked_state ''hi'' False))) =
             sent_requests (calls talked_state) @ [?req]"
    by (simp add: chat_eq model_down_env_def good_env_def failing_model_def talked_state_def
          empty_state_def Let_def)
  have f: "ainvoke model_down_env ?req = Inl ''timeout''"
    by (simp add: model_down_env_def good_env_def failing_model_def)
  show ?thesis using chat_failure_keeps_history[OF r s f] by simp
qed

section \<open>Ingestion\<close>

lemma rebuild_documents:
  "map (\<lambda>(t, m). \<lparr>page_content = t, doc_meta = m\<rparr>) (zip (map page_content ds) (map doc_meta ds)) = ds"
  by (induction ds) simp_all

lemma take1_filter_Nil: "take (Suc 0) (filter P xs) = [] \<longleftrightarrow> (\<forall>x\<in>set xs. \<not> P x)"
  by (simp add: filter_empty_conv)

lemma process_contract_file_ok:
  "split_text env content = Inr chunks \<Longrightarrow>
   \<exists>r. process_contract_file env path content = Inr r \<and>
       p_file_hash r = generate_file_hash env content \<and>
       p_metadata r = extract_metadata content \<and>
       p_security_patterns r = identify_security_patterns content \<and>
       map page_content (p_documents r) = chunks \<and>
       (\<forall>d\<in>set (p_documents r). file_hash (doc_meta d) = generate_file_hash env content)"
  by (auto simp: process_contract_file_def Let_def map_snd_enumerate comp_def case_prod_beta
        in_set_enumerate_eq)

lemma ingest_present:
  assumes "vector_store_set st \<or> init_error env = None"
    and "search_error env = None"
    and "split_text env content = Inr chunks"
    and "\<exists>d\<in>set (index st). file_hash (doc_meta d) = generate_file_hash env content"
    and "ingest_contract env st path content = (r, st')"
  shows "r = Inr (Skipped (generate_file_hash env content))"
    and "index st' = index st"
    and "vector_store_set st'"
proof -
  obtain p where p: "process_contract_file env path content = Inr p"
    "p_file_hash p = generate_file_hash env content"
    using process_contract_file_ok[OF assms(3)] by blast
  show "r = Inr (Skipped (generate_file_hash env content))"
    and "index st' = index st" and "vector_store_set st'"
    using assms(1,2,4,5) p
    by (auto simp: ingest_contract_def initialize_vector_store_def similarity_search_def Let_def
          take1_filter_Nil filter_empty_conv split: if_splits)
qed

lemma ingest_absent:
  assumes "vector_store_set st \<or> init_error env = None"
    and "search_error env = None" and "add_error env = None"
    and "split_text env content = Inr chunks"
    and "\<forall>d\<in>set (index st). file_hash (doc_meta d) \<noteq> generate_file_hash env content"
    and "ingest_contract env st path content = (r, st')"
  shows "r = Inr (Ingested path (generate_file_hash env content) (length chunks)
                    (extract_metadata content) (identify_security_patterns content))"
    and "\<exists>ds. index st' = index st @ ds \<and> map page_content ds = chunks \<and>
              (\<forall>d\<in>set ds. file_hash (doc_meta d) = generate_file_hash env content)"
    and "vector_store_set st'"
proof -
  obtain p where p: "process_contract_file env path content = Inr p"
    "p_file_hash p = generate_file_hash env content"
    "p_metadata p = extract_metadata content"
    "p_security_patterns p = identify_security_patterns content"
    "map page_content (p_documents p) = chunks"
    "\<forall>d\<in>set (p_documents p). file_hash (doc_meta d) = generate_file_hash env content"
    using process_contract_file_ok[OF assms(4)] by blast
  have len: "length (p_documents p) = length chunks"
    using p(5) by (metis length_map)
  show "r = Inr (Ingested path (generate_file_hash env content) (length chunks)
                    (extract_metadata content) (identify_security_patterns content))"
    and "vector_store_set st'"
    using assms(1,2,3,5,6) p(1-4) len
    by (auto simp: ingest_contract_def initialize_vector_store_def similarity_search_def
          add_texts_def Let_def take1_filter_Nil filter_empty_conv split: if_splits)
  have "index st' = index st @ p_documents p"
    using assms(1,2,3,5,6) p(1-4)
    by (auto simp: ingest_contract_def initialize_vector_store_def similarity_search_def
          add_texts_def Let_def take1_filter_Nil filter_empty_conv rebuild_documents split: if_splits)
  then show "\<exists>ds. index st' = index st @ ds \<and> map page_content ds = chunks \<and>
              (\<forall>d\<in>set ds. file_hash (doc_meta d) = generate_file_hash env content)"
    using p(5,6) by blast
qed

text \<open>
  Claim C1 (amended).  While the collaborators answer: after a contract whose
  splitting yields at least one chunk has been ingested, ingesting the same content
  again returns \<open>action = "skipped"\<close> with the same hash and leaves the index as it
  is; ingesting a content whose hash no stored chunk carries returns
  \<open>action = "ingested"\<close> with that hash and \<open>chunks_added\<close> equal to the number of
  its chunks, and appends exactly these chunks to the index.
\<close>

theorem ingest_skip_or_insert:
  assumes "init_error env = None" and "search_error env = None" and "add_error env = None"
    and "split_text env content = Inr chunks" and "chunks \<noteq> []"
    and "ingest_contract env st path content = (r1, st1)"
    and "ingest_contract env st1 path content = (r2, st2)"
    and "split_text env content' = Inr chunks'"
    and "\<forall>d\<in>set (index st1). file_hash (doc_meta d) \<noteq> generate_file_hash env content'"
    and "ingest_contract env st1 path' content' = (r3, st3)"
  shows "r2 = Inr (Skipped (generate_file_hash env content)) \<and>
         map_sum id action r2 = Inr (Some ''skipped'') \<and>
         index st2 = index st1 \<and>
         r3 = Inr (Ingested path' (generate_file_hash env content') (length chunks')
                     (extract_metadata content') (identify_security_patterns content')) \<and>
         map_sum id action r3 = Inr (Some ''ingested'') \<and>
         take (length (index st1)) (index st3) = index st1 \<and>
         map page_content (drop (length (index st1)) (index st3)) = chunks'"
proof -
  have init: "vector_store_set st \<or> init_error env = None" using assms(1) by simp
  have stored: "(\<exists>d\<in>set (index st1). file_hash (doc_meta d) = generate_file_hash env content) \<and>
                vector_store_set st1"
  proof (cases "\<exists>d\<in>set (index st). file_hash (doc_meta d) = generate_file_hash env content")
    case True
    from ingest_present(2,3)[OF init assms(2,4) True assms(6)] True show ?thesis by simp
  next
    case False
    then have fresh: "\<forall>d\<in>set (index st). file_hash (doc_meta d) \<noteq> generate_file_hash env content"
      by simp
    from ingest_absent(2)[OF init assms(2,3,4) fresh assms(6)]
    obtain ds where ds: "index st1 = index st @ ds" "map page_content ds = chunks"
      "\<forall>d\<in>set ds. file_hash (doc_meta d) = generate_file_hash env content"
      by blast
    from ds(2) assms(5) have "ds \<noteq> []" by auto
    then obtain d where "d \<in> set ds" by (cases ds) auto
    with ds(1,3) have "\<exists>d\<in>set (index st1). file_hash (doc_meta d) = generate_file_hash env content"
      by auto
    with ingest_absent(3)[OF init assms(2,3,4) fresh assms(6)] show ?thesis by simp
  qed
  then have init1: "vector_store_set st1 \<or> init_error env = None"
    and present: "\<exists>d\<in>set (index st1). file_hash (doc_meta d) = generate_file_hash env content"
    by simp_all
  have second: "r2 = Inr (Skipped (generate_file_hash env content))" "index st2 = index st1"
    using ingest_present(1,2)[OF init1 assms(2,4) present assms(7)] by simp_all
  have third: "r3 = Inr (Ingested path' (generate_file_hash env content') (length chunks')
                     (extract_metadata content') (identify_security_patterns content'))"
    using ingest_absent(1)[OF init1 assms(2,3,8,9,10)] .
  from ingest_absent(2)[OF init1 assms(2,3,8,9,10)]
  obtain ds where "index st3 = index st1 @ ds" "map page_content ds = chunks'" by blast
  then have "take (length (index st1)) (index st3) = index st1"
    "map page_content (drop (length (index st1)) (index st3)) = chunks'"
    by simp_all
  with second third show ?thesis by simp
qed

lemma good_env_fields:
  "init_error good_env = None" "search_error good_env = None" "add_error good_env = None"
  "split_text good_env = one_chunk_splitter" "md5_hexdigest good_env = plain_digest"
  "ainvoke good_env = echo_model" "top_k_results good_env = 5"
  by (simp_all add: good_env_def)

theorem ingest_skip_or_insert_witness:
  "fst (ingest_contract good_env (snd (ingest_contract good_env empty_state ''a.sol'' ''contract A {}''))
          ''a.sol'' ''contract A {}'') = Inr (Skipped ''contract A {}'') \<and>
   fst (ingest_contract good_env (snd (ingest_contract good_env empty_state ''a.sol'' ''contract A {}''))
          ''a.sol'' ''contract A { }'') =
     Inr (Ingested ''a.sol'' ''contract A { }'' 1 (extract_metadata ''contract A { }'')
            (identify_security_patterns ''contract A { }''))"
proof -
  let ?st1 = "snd (ingest_contract good_env empty_state ''a.sol'' ''contract A {}'')"
  have idx: "map (\<lambda>d. file_hash (doc_meta d)) (index ?st1) = [''contract A {}'']"
    by (simp add: ingest_contract_def process_contract_file_def similarity_search_def
          add_texts_def generate_file_hash_def good_env_fields one_chunk_splitter_def
          plain_digest_def empty_state_def Let_def enumerate_eq_zip)
  have fresh: "\<forall>d\<in>set (index ?st1).
                 file_hash (doc_meta d) \<noteq> generate_file_hash good_env ''contract A { }''"
  proof
    fix d assume "d \<in> set (index ?st1)"
    then have "file_hash (doc_meta d) \<in> set (map (\<lambda>d. file_hash (doc_meta d)) (index ?st1))"
      by simp
    then show "file_hash (doc_meta d) \<noteq> generate_file_hash good_env ''contract A { }''"
      unfolding idx by (simp add: generate_file_hash_def good_env_fields plain_digest_def)
  qed
  have s1: "split_text good_env ''contract A {}'' = Inr [''contract A {}'']"
    and s2: "split_text good_env ''contract A { }'' = Inr [''contract A { }'']"
    by (simp_all add: good_env_fields one_chunk_splitter_def)
  have ne: "[''contract A {}''] \<noteq> []" by simp
  have c1: "ingest_contract good_env empty_state ''a.sol'' ''contract A {}'' =
              (fst (ingest_contract good_env empty_state ''a.sol'' ''contract A {}''), ?st1)"
    and c2: "ingest_contract good_env ?st1 ''a.sol'' ''contract A {}'' =
              (fst (ingest_contract good_env ?st1 ''a.sol'' ''contract A {}''),
               snd (ingest_contract good_env ?st1 ''a.sol'' ''contract A {}''))"
    and c3: "ingest_contract good_env ?st1 ''a.sol'' ''contract A { }'' =
              (fst (ingest_contract good_env ?st1 ''a.sol'' ''contract A { }''),
               snd (ingest_contract good_env ?st1 ''a.sol'' ''contract A { }''))"
    by simp_all
  show ?thesis
    using ingest_skip_or_insert[OF good_env_fields(1,2,3) s1 ne c1 c2 s2 fresh c3]
    by (simp add: generate_file_hash_def good_env_fields plain_digest_def)
qed

text \<open>
  The claim as stated fails for a content that yields no chunk (the empty file, for
  which the splitter returns no chunk): the first call stores nothing under the hash,
  so the second call with the identical content is not skipped but reports
  \<open>"ingested"\<close> again.
\<close>

theorem ingest_empty_twice_counterexample:
  "map_sum id action
     (fst (ingest_contract good_env (snd (ingest_contract good_env empty_state ''empty.sol'' []))
             ''empty.sol'' [])) = Inr (Some ''ingested'')"
  by (simp add: ingest_contract_def process_contract_file_def similarity_search_def
        add_texts_def generate_file_hash_def good_env_fields one_chunk_splitter_def
        plain_digest_def empty_state_def Let_def)

section \<open>Failures of the collaborators\<close>

lemma search_contracts_store_error:
  assumes "vector_store_set st" and "search_error env = Some e"
  shows "search_contracts env st q k =
           (Inl (''Search failed: '' @ e),
            st\<lparr>calls := calls st @
                   [SimilaritySearch q
                      (case k of None \<Rightarrow> top_k_results env
                       | Some n \<Rightarrow> if n = 0 then top_k_results env else n) None]\<rparr>)"
  using assms by (simp add: search_contracts_def similarity_search_def Let_def)

lemma ingest_store_error:
  assumes "vector_store_set st" and "split_text env content = Inr chunks"
    and "search_error env = Some e"
  shows "ingest_contract env st path content =
           (Inr (IngestFailed (''Failed to ingest contract: '' @ e)),
            st\<lparr>calls := calls st @
                   [SimilaritySearch (''file_hash:'' @ generate_file_hash env content) 1
                      (Some (generate_file_hash env content))]\<rparr>)"
proof -
  obtain p where "process_contract_file env path content = Inr p"
    "p_file_hash p = generate_file_hash env content"
    using process_contract_file_ok[OF assms(2)] by blast
  then show ?thesis
    using assms(1,3) by (simp add: ingest_contract_def similarity_search_def Let_def)
qed

lemma ingest_add_error:
  assumes "vector_store_set st" and "split_text env content = Inr chunks"
    and "search_error env = None" and "add_error env = Some e"
    and "\<forall>d\<in>set (index st). file_hash (doc_meta d) \<noteq> generate_file_hash env content"
  shows "ingest_contract env st path content =
           (Inr (IngestFailed (''Failed to ingest contract: '' @ e)),
            st\<lparr>calls := calls st @
                   [SimilaritySearch (''file_hash:'' @ generate_file_hash env content) 1
                      (Some (generate_file_hash env content)),
                    AddTexts chunks]\<rparr>)"
proof -
  obtain p where "process_contract_file env path content = Inr p"
    "p_file_hash p = generate_file_hash env content"
    "map page_content (p_documents p) = chunks"
    using process_contract_file_ok[OF assms(2)] by blast
  then show ?thesis
    using assms(1,3,4,5)
    by (simp add: ingest_contract_def similarity_search_def add_texts_def Let_def
          filter_empty_conv)
qed

text \<open>
  Claim C2 (amended).  A chat call sends exactly one request to the completion model
  and, when that request raises, returns the failure dictionary with the message
  \<open>Chat failed: ...\<close>.  With the store initialised, \<open>ingest_contract\<close> returns the
  failure dictionary \<open>Failed to ingest contract: ...\<close> when the lookup or the insert
  raises, after one call of the failing operation.  \<open>search_contracts\<close> does not
  return a failure result: after one search it raises \<open>Search failed: ...\<close>, which
  \<open>get_relevant_context\<close> turns into the context text
  \<open>Error retrieving context: Search failed: ...\<close>, so that the chat goes on.
\<close>

theorem collaborator_failure_handling:
  "(chat env st user_message include_context = (res, st') \<longrightarrow>
      (\<exists>req. sent_requests (calls st') = sent_requests (calls st) @ [req] \<and>
             (\<forall>e. ainvoke env req = Inl e \<longrightarrow>
                  res = ChatFailed (''Chat failed: '' @ e) \<and> chat_error res = Some (''Chat failed: '' @ e)))) \<and>
   (vector_store_set st \<and> split_text env content = Inr chunks \<and> search_error env = Some e1 \<longrightarrow>
      ingest_contract env st path content =
        (Inr (IngestFailed (''Failed to ingest contract: '' @ e1)),
         st\<lparr>calls := calls st @
                [SimilaritySearch (''file_hash:'' @ generate_file_hash env content) 1
                   (Some (generate_file_hash env content))]\<rparr>)) \<and>
   (vector_store_set st \<and> split_text env content = Inr chunks \<and> search_error env = None \<and>
    add_error env = Some e2 \<and>
    (\<forall>d\<in>set (index st). file_hash (doc_meta d) \<noteq> generate_file_hash env content) \<longrightarrow>
      ingest_contract env st path content =
        (Inr (IngestFailed (''Failed to ingest contract: '' @ e2)),
         st\<lparr>calls := calls st @
                [SimilaritySearch (''file_hash:'' @ generate_file_hash env content) 1
                   (Some (generate_file_hash env content)),
                 AddTexts chunks]\<rparr>)) \<and>
   (vector_store_set st \<and> search_error env = Some e3 \<longrightarrow>
      search_contracts env st query None =
        (Inl (''Search failed: '' @ e3),
         st\<lparr>calls := calls st @ [SimilaritySearch query (top_k_results env) None]\<rparr>) \<and>
      fst (get_relevant_context env st query) =
        ''Error retrieving context: Search failed: '' @ e3)"
proof -
  have a: "\<exists>req. sent_requests (calls st') = sent_requests (calls st) @ [req] \<and>
             (\<forall>e. ainvoke env req = Inl e \<longrightarrow>
                  res = ChatFailed (''Chat failed: '' @ e) \<and> chat_error res = Some (''Chat failed: '' @ e))"
    if run: "chat env st user_message include_context = (res, st')"
  proof -
    obtain c st1 where c: "(if include_context then get_relevant_context env st user_message
                            else ([], st)) = (c, st1)"
      by (cases "if include_context then get_relevant_context env st user_message else ([], st)")
    let ?full = "last10 (conversation_history st) @
                 (if c \<noteq> [] \<and> c \<noteq> no_context
                  then [SystemMessage (audit_system_text c), HumanMessage (audit_human_text user_message)]
                  else [SystemMessage system_prompt, HumanMessage user_message])"
    have "sent_requests (calls st') = sent_requests (calls st) @ [?full]"
      using chat_run(1)[OF run c refl] .
    moreover have "\<forall>e. ainvoke env ?full = Inl e \<longrightarrow>
                  res = ChatFailed (''Chat failed: '' @ e) \<and> chat_error res = Some (''Chat failed: '' @ e)"
      using chat_run(2)[OF run c refl] by simp
    ultimately show ?thesis by blast
  qed
  have d: "fst (get_relevant_context env st query) = ''Error retrieving context: Search failed: '' @ e3"
    if "vector_store_set st" "search_error env = Some e3"
    using search_contracts_store_error[OF that, of query "Some (top_k_results env)"]
    by (simp add: get_relevant_context_def)
  show ?thesis
    using a ingest_store_error[of st env content chunks e1 path]
      ingest_add_error[of st env content chunks e2 path]
      search_contracts_store_error[of st env e3 query None] d
    by simp
qed

lemma down_env_fields:
  "search_error store_down_env = Some ''down''" "split_text store_down_env = one_chunk_splitter"
  "ainvoke model_down_env = failing_model" "top_k_results store_down_env = 5"
  "md5_hexdigest store_down_env = plain_digest"
  by (simp_all add: store_down_env_def model_down_env_def good_env_def)

theorem collaborator_failure_handling_witness:
  "fst (chat model_down_env empty_state ''hi'' False) = ChatFailed ''Chat failed: timeout'' \<and>
   sent_requests (calls (snd (chat model_down_env empty_state ''hi'' False))) =
     [[SystemMessage system_prompt, HumanMessage ''hi'']] \<and>
   ingest_contract store_down_env empty_state ''a.sol'' ''contract A {}'' =
     (Inr (IngestFailed ''Failed to ingest contract: down''),
      empty_state\<lparr>calls := [SimilaritySearch ''file_hash:contract A {}'' 1 (Some ''contract A {}'')]\<rparr>) \<and>
   search_contracts store_down_env empty_state ''reentrancy'' None =
     (Inl ''Search failed: down'',
      empty_state\<lparr>calls := [SimilaritySearch ''reentrancy'' 5 None]\<rparr>) \<and>
   fst (get_relevant_context store_down_env empty_state ''reentrancy'') =
     ''Error retrieving context: Search failed: down''"
proof -
  have r: "chat model_down_env empty_state ''hi'' False =
             (fst (chat model_down_env empty_state ''hi'' False),
              snd (chat model_down_env empty_state ''hi'' False))"
    by simp
  have s: "sent_requests (calls (snd (chat model_down_env empty_state ''hi'' False))) =
             [[SystemMessage system_prompt, HumanMessage ''hi'']]"
    by (simp add: chat_eq down_env_fields failing_model_def empty_state_def last10_def Let_def)
  have f: "ainvoke model_down_env [SystemMessage system_prompt, HumanMessage ''hi''] = Inl ''timeout''"
    by (simp add: down_env_fields failing_model_def)
  have e: "vector_store_set empty_state" "calls empty_state = []"
    by (simp_all add: empty_state_def)
  have sp: "split_text store_down_env ''contract A {}'' = Inr [''contract A {}'']"
    by (simp add: down_env_fields one_chunk_splitter_def)
  have "fst (chat model_down_env empty_state ''hi'' False) = ChatFailed ''Chat failed: timeout''"
    using collaborator_failure_handling[of model_down_env empty_state "''hi''" False
        "fst (chat model_down_env empty_state ''hi'' False)"
        "snd (chat model_down_env empty_state ''hi'' False)"] r s f e
    by auto
  moreover have "ingest_contract store_down_env empty_state ''a.sol'' ''contract A {}'' =
     (Inr (IngestFailed ''Failed to ingest contract: down''),
      empty_state\<lparr>calls := [SimilaritySearch ''file_hash:contract A {}'' 1 (Some ''contract A {}'')]\<rparr>) \<and>
   search_contracts store_down_env empty_state ''reentrancy'' None =
     (Inl ''Search failed: down'',
      empty_state\<lparr>calls := [SimilaritySearch ''reentrancy'' 5 None]\<rparr>) \<and>
   fst (get_relevant_context store_down_env empty_state ''reentrancy'') =
     ''Error retrieving context: Search failed: down''"
    using collaborator_failure_handling[of store_down_env empty_state _ _ _ _ "''contract A {}''"
        "[''contract A {}'']" "''down''" "''a.sol''" _ "''down''" "''reentrancy''"] e sp
    by (simp add: down_env_fields generate_file_hash_def plain_digest_def)
  ultimately show ?thesis using s by simp
qed

text \<open>
  The claim as stated fails for the search operation: a failure of the vector store
  leaves \<open>search_contracts\<close> as an exception.
\<close>

theorem search_failure_raises_counterexample:
  "fst (search_contracts store_down_env empty_state ''reentrancy'' None) = Inl ''Search failed: down''"
  by (simp add: search_contracts_def similarity_search_def down_env_fields empty_state_def Let_def)

section \<open>Occurrences of a pattern\<close>

lemma ms_Nil_iff: "ms ci r s = [] \<longleftrightarrow> \<not> (\<exists>m s'. m \<in> lang ci r \<and> s = m @ s')"
proof -
  have "ms ci r s = [] \<longleftrightarrow> snd ` set (ms ci r s) = {}" by simp
  then show ?thesis unfolding ms_rests by auto
qed

lemma occurs_Cons:
  "occurs ci r (c # cs) \<longleftrightarrow> ms ci r (c # cs) \<noteq> [] \<or> occurs ci r cs"
proof
  assume "occurs ci r (c # cs)"
  then obtain pre m post where e: "c # cs = pre @ m @ post" and m: "m \<in> lang ci r"
    unfolding occurs_def by blast
  show "ms ci r (c # cs) \<noteq> [] \<or> occurs ci r cs"
  proof (cases pre)
    case Nil
    with e m show ?thesis by (auto simp: ms_Nil_iff)
  next
    case (Cons a pre')
    with e have "cs = pre' @ m @ post" by simp
    with m show ?thesis unfolding occurs_def by blast
  qed
next
  assume "ms ci r (c # cs) \<noteq> [] \<or> occurs ci r cs"
  then show "occurs ci r (c # cs)"
  proof
    assume "ms ci r (c # cs) \<noteq> []"
    then obtain m s' where "m \<in> lang ci r" "c # cs = m @ s'" by (auto simp: ms_Nil_iff)
    then have "c # cs = [] @ m @ s' \<and> m \<in> lang ci r" by simp
    then show ?thesis unfolding occurs_def by blast
  next
    assume "occurs ci r cs"
    then obtain pre m post where "cs = pre @ m @ post" "m \<in> lang ci r"
      unfolding occurs_def by blast
    then have "c # cs = (c # pre) @ m @ post \<and> m \<in> lang ci r" by simp
    then show ?thesis unfolding occurs_def by blast
  qed
qed

lemma occurs_Nil: "occurs ci r [] \<longleftrightarrow> ms ci r [] \<noteq> []"
  by (auto simp: occurs_def ms_Nil_iff)

lemma search_None_iff: "search ci r s = None \<longleftrightarrow> \<not> occurs ci r s"
proof (induction s)
  case Nil
  show ?case by (simp add: occurs_Nil split: list.splits prod.splits)
next
  case (Cons c cs)
  show ?case
  proof (cases "ms ci r (c # cs)")
    case Nil
    then show ?thesis using Cons by (simp add: occurs_Cons)
  next
    case (Cons x xs)
    then show ?thesis by (simp add: occurs_Cons split: prod.splits)
  qed
qed

lemma single_concat:
  "{u @ v | u v. u \<in> {[c] | c. P c} \<and> v \<in> L} = {x # v | x v. P x \<and> v \<in> L}"
proof (rule set_eqI, rule iffI)
  fix w assume "w \<in> {u @ v | u v. u \<in> {[c] | c. P c} \<and> v \<in> L}"
  then obtain c v where "w = [c] @ v" "P c" "v \<in> L" by auto
  then show "w \<in> {x # v | x v. P x \<and> v \<in> L}" by auto
next
  fix w assume "w \<in> {x # v | x v. P x \<and> v \<in> L}"
  then obtain x v where "w = x # v" "P x" "v \<in> L" by auto
  then have "w = [x] @ v \<and> [x] \<in> {[c] | c. P c} \<and> v \<in> L" by simp
  then show "w \<in> {u @ v | u v. u \<in> {[c] | c. P c} \<and> v \<in> L}" by blast
qed

lemma lang_lit:
  "lang ci (lit w) = {m. list_all2 (\<lambda>c x. atom_ok ci (Lit x) c) m w}"
proof (induction w rule: lit.induct)
  case 1
  show ?case by simp
next
  case (2 c)
  show ?case by (auto simp del: atom_ok.simps simp: list_all2_Cons2)
next
  case (3 c d ds)
  have "lang ci (lit (c # d # ds)) =
          {u @ v | u v. u \<in> lang ci (Atom (Lit c)) \<and> v \<in> lang ci (lit (d # ds))}"
    by simp
  also have "\<dots> = {x # v | x v. atom_ok ci (Lit c) x \<and> v \<in> lang ci (lit (d # ds))}"
    by (simp only: lang.simps single_concat)
  also have "\<dots> = {m. list_all2 (\<lambda>c x. atom_ok ci (Lit x) c) m (c # d # ds)}"
    unfolding 3 by (auto simp del: atom_ok.simps simp: list_all2_Cons2)
  finally show ?case .
qed

lemma list_all2_lower: "list_all2 (\<lambda>c x. lower c = lower x) m w \<longleftrightarrow> map lower m = map lower w"
proof (induction m arbitrary: w)
  case Nil
  show ?case by (cases w) simp_all
next
  case (Cons a m)
  show ?case by (cases w) (simp_all add: Cons)
qed

lemma lang_lit_ci: "lang True (lit w) = {m. map lower m = map lower w}"
  by (simp add: lang_lit list_all2_lower)

lemma lang_lit_cs: "lang False (lit w) = {w}"
  by (auto simp: lang_lit list_all2_eq[symmetric])

section \<open>The access-control tag\<close>

lemma tag_iff:
  "n \<in> set (identify_security_patterns content) \<longleftrightarrow>
     (\<exists>r. (n, r) \<in> set patterns \<and> occurs True r content)"
  by (force simp: identify_security_patterns_def search_None_iff)

lemma access_control_entry: "(''access_control'', r) \<in> set patterns \<longleftrightarrow> r = access_control_rx"
  by (auto simp: patterns_def)

lemma lower_lowercase: "lower c = c \<or> lower c \<in> set ''abcdefghijklmnopqrstuvwxyz''"
  by (simp add: lower_def)

lemma lower_paren: "lower c = CHR ''('' \<longleftrightarrow> c = CHR ''(''"
  using lower_lowercase[of c] by (auto simp: lower_def)

lemma lower_paren_lit: "lower CHR ''('' = CHR ''(''"
  by (simp add: lower_def)

lemma lower_literals:
  "map lower ''onlyOwner'' = ''onlyowner''" "map lower ''onlyAdmin'' = ''onlyadmin''"
  "map lower ''require'' = ''require''" "map lower ''msg.sender'' = ''msg.sender''"
  by (simp_all add: lower_def)

lemma lang_access_control:
  "m \<in> lang True access_control_rx \<longleftrightarrow>
     map lower m = ''onlyowner'' \<or> map lower m = ''onlyadmin'' \<or>
     (\<exists>a w1 w2 b. m = a @ w1 @ ''('' @ w2 @ b \<and> map lower a = ''require'' \<and>
        (\<forall>c\<in>set w1. is_space c) \<and> (\<forall>c\<in>set w2. is_space c) \<and>
        map lower b = ''msg.sender'')"
  unfolding access_control_rx_def alts.simps seqs.simps lang.simps lang_lit_ci lower_literals
  apply (simp add: lower_paren lower_paren_lit)
  apply (rule iffI)
   apply (elim disjE exE conjE)
     apply simp
    apply simp
   apply (rule disjI2, rule disjI2)
   apply (metis append_Cons append_Nil)
  apply (elim disjE exE conjE)
    apply simp
   apply simp
  apply (rule disjI2, rule disjI2)
  apply (metis append_Cons append_Nil)
  done

text \<open>
  Claim C3 (amended).  The access-control tag is present exactly when the text
  contains, in any letter case, \<open>onlyOwner\<close>, \<open>onlyAdmin\<close> or \<open>require(msg.sender\<close>,
  the last with optional whitespace before and after the parenthesis.
\<close>

theorem access_control_tag_iff:
  "''access_control'' \<in> set (identify_security_patterns content) \<longleftrightarrow>
     (\<exists>pre m post. content = pre @ m @ post \<and>
        (map lower m = ''onlyowner'' \<or> map lower m = ''onlyadmin'' \<or>
         (\<exists>a w1 w2 b. m = a @ w1 @ ''('' @ w2 @ b \<and> map lower a = ''require'' \<and>
            (\<forall>c\<in>set w1. is_space c) \<and> (\<forall>c\<in>set w2. is_space c) \<and>
            map lower b = ''msg.sender'')))"
  by (simp only: tag_iff access_control_entry simp_thms ex_simps occurs_def lang_access_control)

theorem access_control_tag_iff_witness:
  "''access_control'' \<in> set (identify_security_patterns ''REQUIRE ( MSG.sender == owner)'')"
proof -
  have parts: "''REQUIRE ( MSG.sender'' = ''REQUIRE'' @ '' '' @ ''('' @ '' '' @ ''MSG.sender'' \<and>
        map lower ''REQUIRE'' = ''require'' \<and> (\<forall>c\<in>set '' ''. is_space c) \<and>
        (\<forall>c\<in>set '' ''. is_space c) \<and> map lower ''MSG.sender'' = ''msg.sender''"
    by (simp add: lower_def is_space_def)
  have call: "\<exists>a w1 w2 b. ''REQUIRE ( MSG.sender'' = a @ w1 @ ''('' @ w2 @ b \<and>
            map lower a = ''require'' \<and> (\<forall>c\<in>set w1. is_space c) \<and> (\<forall>c\<in>set w2. is_space c) \<and>
            map lower b = ''msg.sender''"
    by (rule exI[of _ "''REQUIRE''"], rule exI[of _ "'' ''"], rule exI[of _ "'' ''"],
        rule exI[of _ "''MSG.sender''"]) (rule parts)
  have whole: "''REQUIRE ( MSG.sender == owner)'' = [] @ ''REQUIRE ( MSG.sender'' @ '' == owner)''"
    by simp
  have "\<exists>pre m post. ''REQUIRE ( MSG.sender == owner)'' = pre @ m @ post \<and>
        (map lower m = ''onlyowner'' \<or> map lower m = ''onlyadmin'' \<or>
         (\<exists>a w1 w2 b. m = a @ w1 @ ''('' @ w2 @ b \<and> map lower a = ''require'' \<and>
            (\<forall>c\<in>set w1. is_space c) \<and> (\<forall>c\<in>set w2. is_space c) \<and>
            map lower b = ''msg.sender''))"
    by (rule exI[of _ "[]"], rule exI[of _ "''REQUIRE ( MSG.sender''"],
        rule exI[of _ "'' == owner)''"], rule conjI[OF whole], rule disjI2, rule disjI2, rule call)
  then show ?thesis by (rule iffD2[OF access_control_tag_iff])
qed

lemma search_onlyAdmin: "search True access_control_rx ''onlyAdmin'' \<noteq> None"
  by (simp add: access_control_rx_def lower_def)

lemma search_spec_onlyAdmin: "search True spec_access_control_rx ''onlyAdmin'' = None"
  by (simp add: spec_access_control_rx_def lower_def)

lemma tag_onlyAdmin: "''access_control'' \<in> set (identify_security_patterns ''onlyAdmin'')"
proof -
  have "occurs True access_control_rx ''onlyAdmin''"
    using search_onlyAdmin by (simp only: search_None_iff not_not)
  then show ?thesis by (simp only: tag_iff access_control_entry simp_thms ex_simps)
qed

text \<open>
  The claim as stated fails for the text \<open>onlyAdmin\<close>: it contains neither of the two
  patterns that the claim names, and the tag is present.
\<close>

theorem access_control_onlyAdmin_counterexample:
  "search True spec_access_control_rx ''onlyAdmin'' = None \<and>
   ''access_control'' \<in> set (identify_security_patterns ''onlyAdmin'')"
  by (rule conjI[OF search_spec_onlyAdmin tag_onlyAdmin])

section \<open>The pragma\<close>

lemma ms_lit_self: "ms False (lit w) (w @ s) = [([], s)]"
  by (induction w rule: lit.induct) simp_all

lemma many_cut:
  "\<forall>y\<in>set Y. p y \<Longrightarrow> \<not> p c \<Longrightarrow> \<exists>R. many p (Y @ c # t) = (c # t) # R"
  by (induction Y) auto

lemma ms_Plus_cut:
  assumes "atom_ok ci a y" and "\<forall>z\<in>set Y. atom_ok ci a z" and "\<not> atom_ok ci a c"
  shows "\<exists>R. ms ci (Plus a) (y # Y @ c # t) = ([], c # t) # R"
proof -
  obtain R where "many (atom_ok ci a) (Y @ c # t) = (c # t) # R"
    using many_cut[OF assms(2,3)] by blast
  then show ?thesis using assms(1) by simp
qed

lemma ms_Seq_first:
  assumes "ms ci r1 s = (g1, s1) # R1" and "ms ci r2 s1 = (g2, s2) # R2"
  shows "\<exists>R. ms ci (Seq r1 r2) s = (g1 @ g2, s2) # R"
  using assms by simp

lemma ms_Grp_first:
  assumes "ms ci r s = (g, s') # R"
  shows "\<exists>R'. ms ci (Grp r) s = (take (length s - length s') s # g, s') # R'"
  using assms by simp

lemma ms_pragma_tail:
  assumes "CHR '';'' \<notin> set Y" and "Y \<noteq> []"
  shows "\<exists>R. ms False (Seq (Grp (Plus (NotLit CHR '';''))) (Atom (Lit CHR '';''))) (Y @ CHR '';'' # post)
            = ([Y], post) # R"
proof -
  obtain y Y' where Y: "Y = y # Y'" using assms(2) by (cases Y) auto
  have "\<exists>R. ms False (Plus (NotLit CHR '';'')) (y # Y' @ CHR '';'' # post) = ([], CHR '';'' # post) # R"
    using assms(1) Y by (intro ms_Plus_cut) auto
  then obtain R where "ms False (Plus (NotLit CHR '';'')) (Y @ CHR '';'' # post) = ([], CHR '';'' # post) # R"
    using Y by auto
  from ms_Grp_first[OF this]
  obtain R' where g: "ms False (Grp (Plus (NotLit CHR '';''))) (Y @ CHR '';'' # post)
                      = ([Y], CHR '';'' # post) # R'"
    by auto
  have a: "ms False (Atom (Lit CHR '';'')) (CHR '';'' # post) = ([], post) # []" by simp
  from ms_Seq_first[OF g a] show ?thesis by simp
qed

lemma ms_pragma_first:
  assumes "CHR '';'' \<notin> set X" and "\<exists>x\<in>set X. \<not> is_space x"
  shows "\<exists>R. ms False pragma_pattern (''pragma solidity '' @ X @ '';'' @ post)
            = ([dropWhile is_space X], post) # R"
proof -
  let ?W = "takeWhile is_space X" and ?Y = "dropWhile is_space X"
  have X: "X = ?W @ ?Y" by simp
  have Yne: "?Y \<noteq> []" using assms(2) by (simp add: dropWhile_eq_Nil_conv)
  then obtain y Y' where Y: "?Y = y # Y'" by (cases ?Y) auto
  have ny: "\<not> is_space y" using hd_dropWhile[OF Yne] Y by simp
  have semi: "CHR '';'' \<notin> set ?Y" using assms(1) by (metis X Un_iff set_append)
  let ?T1 = "Seq (Grp (Plus (NotLit CHR '';''))) (Atom (Lit CHR '';''))"
  obtain R1 where t1: "ms False ?T1 (?Y @ CHR '';'' # post) = ([?Y], post) # R1"
    using ms_pragma_tail[OF semi Yne] by blast
  have "\<exists>R. ms False (Plus Space) (CHR '' '' # ?W @ y # (Y' @ CHR '';'' # post)) = ([], y # (Y' @ CHR '';'' # post)) # R"
    using ny by (intro ms_Plus_cut) (auto simp: is_space_def dest: set_takeWhileD)
  then obtain R2 where sp2: "ms False (Plus Space) (CHR '' '' # X @ CHR '';'' # post) = ([], ?Y @ CHR '';'' # post) # R2"
    by (metis X Y append_Cons append_assoc)
  from ms_Seq_first[OF sp2 t1]
  obtain R4 where t3: "ms False (Seq (Plus Space) ?T1) (CHR '' '' # X @ CHR '';'' # post) = ([?Y], post) # R4"
    by auto
  have l2: "ms False (lit ''solidity'') (''solidity'' @ (CHR '' '' # X @ CHR '';'' # post))
            = ([], CHR '' '' # X @ CHR '';'' # post) # []"
    by (rule ms_lit_self)
  from ms_Seq_first[OF l2 t3]
  obtain R5 where t4: "ms False (Seq (lit ''solidity'') (Seq (Plus Space) ?T1))
                         (''solidity'' @ (CHR '' '' # X @ CHR '';'' # post)) = ([?Y], post) # R5"
    by auto
  have "\<exists>R. ms False (Plus Space) (CHR '' '' # [] @ CHR ''s'' # (''olidity'' @ (CHR '' '' # X @ CHR '';'' # post)))
            = ([], CHR ''s'' # (''olidity'' @ (CHR '' '' # X @ CHR '';'' # post))) # R"
    by (intro ms_Plus_cut) (auto simp: is_space_def)
  then obtain R6 where sp1: "ms False (Plus Space) (CHR '' '' # ''solidity'' @ (CHR '' '' # X @ CHR '';'' # post))
            = ([], ''solidity'' @ (CHR '' '' # X @ CHR '';'' # post)) # R6"
    by auto
  from ms_Seq_first[OF sp1 t4]
  obtain R7 where t5: "ms False (Seq (Plus Space) (Seq (lit ''solidity'') (Seq (Plus Space) ?T1)))
                         (CHR '' '' # ''solidity'' @ (CHR '' '' # X @ CHR '';'' # post)) = ([?Y], post) # R7"
    by auto
  have l1: "ms False (lit ''pragma'') (''pragma'' @ (CHR '' '' # ''solidity'' @ (CHR '' '' # X @ CHR '';'' # post)))
            = ([], CHR '' '' # ''solidity'' @ (CHR '' '' # X @ CHR '';'' # post)) # []"
    by (rule ms_lit_self)
  from ms_Seq_first[OF l1 t5]
  obtain R8 where "ms False (Seq (lit ''pragma'') (Seq (Plus Space) (Seq (lit ''solidity'') (Seq (Plus Space) ?T1))))
                         (''pragma'' @ (CHR '' '' # ''solidity'' @ (CHR '' '' # X @ CHR '';'' # post))) = ([?Y], post) # R8"
    by auto
  moreover have "pragma_pattern = Seq (lit ''pragma'') (Seq (Plus Space) (Seq (lit ''solidity'') (Seq (Plus Space) ?T1)))"
    by (simp add: pragma_pattern_def del: lit.simps)
  moreover have "''pragma solidity '' @ X @ '';'' @ post = ''pragma'' @ (CHR '' '' # ''solidity'' @ (CHR '' '' # X @ CHR '';'' # post))"
    by simp
  ultimately show ?thesis by (simp only:) blast
qed

lemma search_skip:
  "no_match_before ci r pre s \<Longrightarrow> search ci r (pre @ s) = search ci r s"
  by (induction pre) simp_all

lemma search_first:
  "ms ci r s = (g, rest) # R \<Longrightarrow> s \<noteq> [] \<Longrightarrow>
   search ci r s = Some (take (length s - length rest) s, g, rest)"
  by (cases s) simp_all

lemma strip_dropWhile: "strip (dropWhile is_space X) = strip X"
  by (simp add: strip_def)

lemma pragma_at_first_match:
  assumes "CHR '';'' \<notin> set X" and "\<exists>x\<in>set X. \<not> is_space x"
    and "no_match_before False pragma_pattern pre (''pragma solidity '' @ X @ '';'' @ post)"
  shows "m_pragma (extract_metadata (pre @ ''pragma solidity '' @ X @ '';'' @ post)) = Some (strip X)"
proof -
  let ?occ = "''pragma solidity '' @ X @ '';'' @ post"
  obtain R where "ms False pragma_pattern ?occ = ([dropWhile is_space X], post) # R"
    using ms_pragma_first[OF assms(1,2)] by blast
  then have "search False pragma_pattern ?occ =
               Some (take (length ?occ - length post) ?occ, [dropWhile is_space X], post)"
    by (intro search_first) simp_all
  moreover have "search False pragma_pattern (pre @ ?occ) = search False pragma_pattern ?occ"
    using assms(3) by (rule search_skip)
  ultimately show ?thesis
    by (simp add: extract_metadata_def pick_def strip_dropWhile)
qed

lemma pragma_None_iff:
  "m_pragma (extract_metadata content) = None \<longleftrightarrow> \<not> occurs False pragma_pattern content"
  by (simp add: extract_metadata_def search_None_iff[symmetric] split: option.splits)

lemma lang_keyword_shape:
  "m \<in> lang False (Seq (lit P) (Seq (Plus Space) (Seq (lit S) (Seq (Plus Space)
          (Seq (Grp (Plus (NotLit q))) (Atom (Lit q))))))) \<longleftrightarrow>
     (\<exists>w1 w2 X. m = P @ w1 @ S @ w2 @ X @ [q] \<and>
        w1 \<noteq> [] \<and> (\<forall>c\<in>set w1. is_space c) \<and> w2 \<noteq> [] \<and> (\<forall>c\<in>set w2. is_space c) \<and>
        X \<noteq> [] \<and> q \<notin> set X)"
  by (simp add: lang_lit_cs) blast

lemma lang_pragma:
  "m \<in> lang False pragma_pattern \<longleftrightarrow>
     (\<exists>w1 w2 X. m = ''pragma'' @ w1 @ ''solidity'' @ w2 @ X @ '';'' \<and>
        w1 \<noteq> [] \<and> (\<forall>c\<in>set w1. is_space c) \<and> w2 \<noteq> [] \<and> (\<forall>c\<in>set w2. is_space c) \<and>
        X \<noteq> [] \<and> CHR '';'' \<notin> set X)"
proof -
  have eq: "pragma_pattern = Seq (lit ''pragma'') (Seq (Plus Space) (Seq (lit ''solidity'') (Seq (Plus Space)
          (Seq (Grp (Plus (NotLit CHR '';''))) (Atom (Lit CHR '';''))))))"
    by (simp add: pragma_pattern_def del: lit.simps)
  show ?thesis unfolding eq by (rule lang_keyword_shape)
qed

text \<open>
  Claim C5 (amended).  When the text is \<open>pre\<close>, then \<open>pragma solidity X;\<close>, then any
  rest, where \<open>X\<close> has no semicolon and is not all whitespace and the pattern matches
  at no position of \<open>pre\<close>, the pragma returned is \<open>X\<close> without its surrounding
  whitespace, whatever follows.  The pragma is absent exactly when the text has no
  part made of \<open>pragma\<close>, whitespace, \<open>solidity\<close>, whitespace, a non-empty text
  without semicolon and a semicolon; that part may span several lines.
\<close>

theorem pragma_first_match:
  "(CHR '';'' \<notin> set X \<and> (\<exists>x\<in>set X. \<not> is_space x) \<and>
    no_match_before False pragma_pattern pre (''pragma solidity '' @ X @ '';'' @ post) \<longrightarrow>
      m_pragma (extract_metadata (pre @ ''pragma solidity '' @ X @ '';'' @ post)) = Some (strip X)) \<and>
   (m_pragma (extract_metadata content) = None \<longleftrightarrow>
      \<not> (\<exists>pre w1 w2 X post.
            content = pre @ (''pragma'' @ w1 @ ''solidity'' @ w2 @ X @ '';'') @ post \<and>
            w1 \<noteq> [] \<and> (\<forall>c\<in>set w1. is_space c) \<and> w2 \<noteq> [] \<and> (\<forall>c\<in>set w2. is_space c) \<and>
            X \<noteq> [] \<and> CHR '';'' \<notin> set X))"
proof -
  have "m_pragma (extract_metadata content) = None \<longleftrightarrow>
          \<not> (\<exists>pre m post. content = pre @ m @ post \<and> m \<in> lang False pragma_pattern)"
    by (simp only: pragma_None_iff occurs_def)
  also have "\<dots> \<longleftrightarrow> \<not> (\<exists>pre w1 w2 X post.
            content = pre @ (''pragma'' @ w1 @ ''solidity'' @ w2 @ X @ '';'') @ post \<and>
            w1 \<noteq> [] \<and> (\<forall>c\<in>set w1. is_space c) \<and> w2 \<noteq> [] \<and> (\<forall>c\<in>set w2. is_space c) \<and>
            X \<noteq> [] \<and> CHR '';'' \<notin> set X)"
    unfolding lang_pragma by blast
  finally show ?thesis using pragma_at_first_match[of X pre post] by blast
qed

theorem pragma_first_match_witness:
  "m_pragma (extract_metadata
     (''// demo\<newline>'' @ ''pragma solidity '' @ ''^0.8.0 '' @ '';'' @ '' pragma solidity ^0.7.0; contract C {}''))
   = Some ''^0.8.0''"
proof -
  have a: "CHR '';'' \<notin> set ''^0.8.0 ''" by simp
  have b: "\<exists>x\<in>set ''^0.8.0 ''. \<not> is_space x" by (simp add: is_space_def)
  have c: "no_match_before False pragma_pattern ''// demo\<newline>''
             (''pragma solidity '' @ ''^0.8.0 '' @ '';'' @ '' pragma solidity ^0.7.0; contract C {}'')"
    by (simp add: pragma_pattern_def)
  have d: "strip ''^0.8.0 '' = ''^0.8.0''" by (simp add: strip_def is_space_def)
  have "m_pragma (extract_metadata
     (''// demo\<newline>'' @ ''pragma solidity '' @ ''^0.8.0 '' @ '';'' @ '' pragma solidity ^0.7.0; contract C {}''))
   = Some (strip ''^0.8.0 '')"
    using pragma_first_match[of "''^0.8.0 ''" "''// demo\<newline>''"
        "'' pragma solidity ^0.7.0; contract C {}''", THEN conjunct1] a b c
    by blast
  then show ?thesis by (simp only: d)
qed

lemma multi_line_pragma:
  "m_pragma (extract_metadata ''pragma solidity ^0.8.0\<newline>contract C { uint x; }'')
     = Some ''^0.8.0\<newline>contract C { uint x''"
  by (simp add: extract_metadata_def pragma_pattern_def pick_def strip_def is_space_def)

lemma multi_line_no_pragma_line:
  "\<not> spec_has_pragma_line ''pragma solidity ^0.8.0\<newline>contract C { uint x; }''"
  by (simp add: spec_has_pragma_line_def spec_pragma_line_def)

text \<open>
  The claim as stated fails for a text without any line of the form
  \<open>pragma solidity X;\<close>: when the semicolon of the pragma is missing, the match runs
  on to the next semicolon of the text, lines later.
\<close>

theorem pragma_without_line_counterexample:
  "\<not> spec_has_pragma_line ''pragma solidity ^0.8.0\<newline>contract C { uint x; }'' \<and>
   m_pragma (extract_metadata ''pragma solidity ^0.8.0\<newline>contract C { uint x; }'')
     = Some ''^0.8.0\<newline>contract C { uint x''"
  by (rule conjI[OF multi_line_no_pragma_line multi_line_pragma])

section \<open>Absent patterns\<close>

lemma ms_rest_split: "(g, rest) \<in> set (ms ci r s) \<Longrightarrow> \<exists>m. s = m @ rest"
proof -
  assume "(g, rest) \<in> set (ms ci r s)"
  then have "rest \<in> snd ` set (ms ci r s)" by (metis image_eqI snd_conv)
  then show ?thesis unfolding ms_rests by blast
qed

lemma search_Some_split:
  "search ci r s = Some (m, g, rest) \<Longrightarrow> \<exists>pre. s = pre @ m @ rest"
proof (induction s)
  case Nil
  then obtain R where "ms ci r [] = (g, rest) # R" and m: "m = []"
    by (auto split: list.splits)
  then have "(g, rest) \<in> set (ms ci r [])" by simp
  from ms_rest_split[OF this] m show ?case by simp
next
  case (Cons c cs)
  show ?case
  proof (cases "ms ci r (c # cs)")
    case Nil
    with Cons.prems have "search ci r cs = Some (m, g, rest)" by simp
    from Cons.IH[OF this] obtain pre where "cs = pre @ m @ rest" by blast
    then have "c # cs = (c # pre) @ m @ rest" by simp
    then show ?thesis by blast
  next
    case (Cons x xs)
    with Cons.prems have x: "x = (g, rest)" and m: "m = take (length (c # cs) - length rest) (c # cs)"
      by (auto split: prod.splits)
    from Cons x have "(g, rest) \<in> set (ms ci r (c # cs))" by simp
    from ms_rest_split[OF this] obtain m' where m': "c # cs = m' @ rest" by blast
    have "length (c # cs) - length rest = length m'"
      using arg_cong[OF m', of length] by simp
    then have "m = take (length m') (m' @ rest)" unfolding m using m' by simp
    then have "m = m'" by simp
    with m' have "c # cs = [] @ m @ rest" by simp
    then show ?thesis by blast
  qed
qed

text \<open>
  The text after a match is a suffix of the text searched, so the length tests in
  \<open>findall\<close> never fail: the scan is the plain loop over successive matches.
\<close>

lemma findall_unguarded:
  "findall ci r s =
     (case search ci r s of
        None \<Rightarrow> []
      | Some (m, g, rest) \<Rightarrow>
          pick m g #
            (if m \<noteq> [] then findall ci r rest
             else (case rest of [] \<Rightarrow> [] | _ # cs \<Rightarrow> findall ci r cs)))"
proof (cases "search ci r s")
  case None
  then show ?thesis by (simp add: findall.simps)
next
  case (Some x)
  obtain m g rest where x: "x = (m, g, rest)" by (cases x) auto
  from search_Some_split[OF Some[unfolded x]] obtain pre where s: "s = pre @ m @ rest" by blast
  have a: "m \<noteq> [] \<Longrightarrow> length rest < length s" using s by (cases m) simp_all
  have b: "length cs < length s" if "rest = c # cs" for c cs using s that by simp
  show ?thesis
    by (subst findall.simps) (simp add: Some x a b split: list.splits)
qed

lemma findall_absent: "\<not> occurs ci r s \<Longrightarrow> findall ci r s = []"
  by (simp add: findall.simps search_None_iff[symmetric])

lemma patterns_functional:
  "(n, r) \<in> set patterns \<Longrightarrow> (n, r') \<in> set patterns \<Longrightarrow> r = r'"
  by (auto simp: patterns_def)

lemma tags_absent:
  "\<forall>r\<in>snd ` set patterns. \<not> occurs True r content \<Longrightarrow> identify_security_patterns content = []"
  by (auto simp: identify_security_patterns_def filter_empty_conv search_None_iff)

text \<open>
  Claim C6.  \<open>extract_metadata\<close> and \<open>identify_security_patterns\<close> are total
  functions of the text: the matcher recurses on the pattern and the text, the scan
  of \<open>findall\<close> is well-founded, and no step has an error result.  When no part of
  the text is a text of a pattern, the field extracted with that pattern is the empty
  list (the pragma is absent), the tag of an absent keyword family is not reported,
  and the tag list is empty when no family occurs.
\<close>

theorem extractor_absent_is_empty:
  "(\<not> occurs False contract_pattern content \<longrightarrow> m_contracts (extract_metadata content) = []) \<and>
   (\<not> occurs False function_pattern content \<longrightarrow> m_functions (extract_metadata content) = []) \<and>
   (\<not> occurs False modifier_pattern content \<longrightarrow> m_modifiers (extract_metadata content) = []) \<and>
   (\<not> occurs False event_pattern content \<longrightarrow> m_events (extract_metadata content) = []) \<and>
   (\<not> occurs False import_pattern content \<longrightarrow> m_imports (extract_metadata content) = []) \<and>
   (\<not> occurs False pragma_pattern content \<longrightarrow> m_pragma (extract_metadata content) = None) \<and>
   (\<forall>n r. (n, r) \<in> set patterns \<and> \<not> occurs True r content \<longrightarrow>
      n \<notin> set (identify_security_patterns content)) \<and>
   ((\<forall>r\<in>snd ` set patterns. \<not> occurs True r content) \<longrightarrow>
      identify_security_patterns content = [])"
proof -
  have "\<forall>n r. (n, r) \<in> set patterns \<and> \<not> occurs True r content \<longrightarrow>
      n \<notin> set (identify_security_patterns content)"
    using patterns_functional unfolding tag_iff by blast
  then show ?thesis
    using tags_absent[of content] pragma_None_iff[of content]
    by (simp add: extract_metadata_def findall_absent)
qed

lemma nothing_occurs:
  "\<not> occurs False contract_pattern ''x = 1''" "\<not> occurs False function_pattern ''x = 1''"
  "\<not> occurs False modifier_pattern ''x = 1''" "\<not> occurs False event_pattern ''x = 1''"
  "\<not> occurs False import_pattern ''x = 1''" "\<not> occurs False pragma_pattern ''x = 1''"
  unfolding search_None_iff[symmetric]
  by (simp_all add: contract_pattern_def function_pattern_def modifier_pattern_def
        event_pattern_def import_pattern_def pragma_pattern_def)

lemma no_tag_occurs: "\<forall>r\<in>snd ` set patterns. \<not> occurs True r ''x = 1''"
  unfolding search_None_iff[symmetric]
  by (simp add: patterns_def reentrancy_guard_rx_def access_control_rx_def safe_math_rx_def
        external_calls_rx_def time_dependency_rx_def randomness_rx_def overflow_checks_rx_def
        lower_def)

theorem extractor_absent_is_empty_witness:
  "extract_metadata ''x = 1'' =
     \<lparr> m_contracts = [], m_functions = [], m_modifiers = [], m_events = [], m_imports = [],
       m_pragma = None \<rparr> \<and>
   identify_security_patterns ''x = 1'' = []"
  using extractor_absent_is_empty[of "''x = 1''"] nothing_occurs no_tag_occurs
  by (cases "extract_metadata ''x = 1''") simp

end
